(* ===== verification/Prelude.thy ===== *)
theory Prelude
  imports Main "HOL-Library.Word" "HOL-Library.Char_ord" "HOL-Library.List_Lexorder"
    "HOL-Library.Sublist" "HOL-Library.Multiset"
begin

text \<open>
  Shared vocabulary of the development: the error values of the Go program, the
  early-return combinator of its validators, the interfaces (locales) that several
  components implement, and the generic list lemmas they share.

  A Go \<open>string\<close> and a Go \<open>[]byte\<close> are both sequences of bytes, and \<open>char\<close> is an
  8-bit value, so both are \<open>string\<close> here; a length is a number of bytes.
\<close>

named_theorems check_iff \<open>a validator accepts exactly the values that satisfy its contract\<close>
named_theorems stream_simps \<open>what a sink holds after a write\<close>
named_theorems outcome_simps \<open>observations on job and pass results\<close>

section \<open>Go errors\<close>

text \<open>
  An error value: the sentinels the program tests with \<open>errors.Is\<close>, an opaque
  error, and a wrapping error (\<open>fmt.Errorf\<close> with one or several \<open>%w\<close> verbs, or a
  path error around its cause).
\<close>

datatype goerr =
    ErrNotExist
  | ErrNotRegular
  | ErrEOF
  | ErrCanceled
  | ErrDeadlineExceeded
  | ErrUnreachable
  | ErrSend
  | ErrOther string
  | ErrWrap string "goerr list"

text \<open>\<open>errors.Is\<close>: the error itself or anything it wraps.\<close>

fun errIs :: "goerr \<Rightarrow> goerr \<Rightarrow> bool" where
  "errIs (ErrWrap m es) t = (ErrWrap m es = t \<or> list_ex (\<lambda>e. errIs e t) es)"
| "errIs e t = (e = t)"

definition errIsOpt :: "goerr option \<Rightarrow> goerr \<Rightarrow> bool" where
  "errIsOpt eo t = (case eo of None \<Rightarrow> False | Some e \<Rightarrow> errIs e t)"

lemma errIsOpt_simps [simp]:
  "errIsOpt None t = False"
  "errIsOpt (Some e) t = errIs e t"
  by (simp_all add: errIsOpt_def)

section \<open>Early returns\<close>

text \<open>
  \<open>if err := f(); err != nil \<close>\<open>{ return err }\<close> followed by the rest of the body:
  the first error wins.
\<close>

definition orElse :: "'e option \<Rightarrow> 'e option \<Rightarrow> 'e option" where
  "orElse a b = (case a of Some e \<Rightarrow> Some e | None \<Rightarrow> b)"

lemma orElse_simps [simp]:
  "orElse None b = b"
  "orElse (Some e) b = Some e"
  by (simp_all add: orElse_def)

lemma orElse_None_iff [check_iff]: "orElse a b = None \<longleftrightarrow> a = None \<and> b = None"
  by (cases a) simp_all

lemma orElse_Some_iff: "orElse a b = Some e \<longleftrightarrow> a = Some e \<or> a = None \<and> b = Some e"
  by (cases a) auto

text \<open>The guard \<open>if bad \<close>\<open>{ return e }\<close> as an error option.\<close>

definition failIf :: "bool \<Rightarrow> 'e \<Rightarrow> 'e option" where
  "failIf bad e = (if bad then Some e else None)"

lemma failIf_None_iff [check_iff]: "failIf bad e = None \<longleftrightarrow> \<not> bad"
  by (simp add: failIf_def)

lemma failIf_Some_iff: "failIf bad e = Some e' \<longleftrightarrow> bad \<and> e' = e"
  by (auto simp: failIf_def)

text \<open>A loop that returns the first error of its elements.\<close>

fun firstErr :: "('a \<Rightarrow> 'e option) \<Rightarrow> 'a list \<Rightarrow> 'e option" where
  "firstErr f [] = None"
| "firstErr f (x # xs) = orElse (f x) (firstErr f xs)"

lemma firstErr_None_iff [check_iff]: "firstErr f xs = None \<longleftrightarrow> (\<forall>x \<in> set xs. f x = None)"
  by (induction xs) (auto simp: orElse_None_iff)

section \<open>Interface: a byte sink\<close>

text \<open>
  The contract of an \<open>io.Writer\<close> that a subprocess's output is copied into in chunks
  of arbitrary size: an invariant ties the state to the bytes written so far, and what
  the program reads back is a function of those bytes alone.
\<close>

locale byte_sink =
  fixes put :: "'s \<Rightarrow> string \<Rightarrow> 's"
    and start :: 's
    and tracks :: "'s \<Rightarrow> string \<Rightarrow> bool"
    and view :: "'s \<Rightarrow> 'v"
    and spec :: "string \<Rightarrow> 'v"
  assumes tracks_start: "tracks start []"
    and tracks_put: "tracks s u \<Longrightarrow> tracks (put s p) (u @ p)"
    and view_spec: "tracks s u \<Longrightarrow> view s = spec u"
begin

lemma tracks_foldl: "tracks s u \<Longrightarrow> tracks (foldl put s ps) (u @ concat ps)"
proof (induction ps arbitrary: s u)
  case Nil
  then show ?case by simp
next
  case (Cons p ps)
  from Cons.IH [OF tracks_put [OF Cons.prems], of p] show ?case by simp
qed

lemma tracks_all: "tracks (foldl put start ps) (concat ps)"
  using tracks_foldl [OF tracks_start] by simp

lemma view_all: "view (foldl put start ps) = spec (concat ps)"
  by (rule view_spec [OF tracks_all])

lemma chunking_irrelevant:
  "concat ps = concat qs \<Longrightarrow> view (foldl put start ps) = view (foldl put start qs)"
  by (simp add: view_all)

end

section \<open>Interface: a validator\<close>

text \<open>
  A validator returns the first violation it meets; its contract is that no violation
  means the value satisfies the stated predicate, and conversely.
\<close>

locale validator =
  fixes check :: "'a \<Rightarrow> 'e option"
    and ok :: "'a \<Rightarrow> bool"
  assumes accepts_iff: "check x = None \<longleftrightarrow> ok x"
begin

lemma rejects_iff: "(\<exists>e. check x = Some e) \<longleftrightarrow> \<not> ok x"
  using accepts_iff [of x] by auto

lemma accepts_all_iff: "firstErr check xs = None \<longleftrightarrow> (\<forall>x \<in> set xs. ok x)"
  by (simp add: firstErr_None_iff accepts_iff)

end

section \<open>Generic list lemmas\<close>

text \<open>The last \<open>n\<close> bytes of a string.\<close>

definition lastn :: "nat \<Rightarrow> 'a list \<Rightarrow> 'a list" where
  "lastn n xs = drop (length xs - n) xs"

lemma length_lastn [simp]: "length (lastn n xs) = min n (length xs)"
  by (simp add: lastn_def)

lemma lastn_all [simp]: "length xs \<le> n \<Longrightarrow> lastn n xs = xs"
  by (simp add: lastn_def)

lemma lastn_append_long: "n \<le> length ys \<Longrightarrow> lastn n (xs @ ys) = lastn n ys"
  by (simp add: lastn_def)

lemma lastn_append_short: "length ys \<le> n \<Longrightarrow> lastn n (xs @ ys) = lastn (n - length ys) xs @ ys"
proof -
  assume le: "length ys \<le> n"
  then have "length xs + length ys - n = length xs - (n - length ys)" by linarith
  with le show ?thesis by (simp add: lastn_def)
qed

lemma lastn_lastn: "m \<le> n \<Longrightarrow> lastn m (lastn n xs) = lastn m xs"
proof -
  assume "m \<le> n"
  then have "(length xs - (length xs - n) - m) + (length xs - n) = length xs - m" by linarith
  then show ?thesis by (simp add: lastn_def)
qed

lemma suffix_lastn: "suffix (lastn n xs) xs"
  by (simp add: lastn_def suffix_drop)

text \<open>\<open>strings.Join\<close>.\<close>

fun joinWith :: "string \<Rightarrow> string list \<Rightarrow> string" where
  "joinWith sep [] = []"
| "joinWith sep [x] = x"
| "joinWith sep (x # y # r) = x @ sep @ joinWith sep (y # r)"

lemma joinWith_snoc: "joinWith sep (st @ [e]) = (if st = [] then e else joinWith sep st @ sep @ e)"
  by (induction sep st rule: joinWith.induct) auto

lemma joinWith_nonempty: "st \<noteq> [] \<Longrightarrow> \<forall>e \<in> set st. e \<noteq> [] \<Longrightarrow> joinWith sep st \<noteq> []"
  by (induction sep st rule: joinWith.induct) auto

end
