(* ===== verification/GoText.thy ===== *)
theory GoText
  imports Prelude
begin

text \<open>
  The parts of the Go standard library that the program applies to strings: UTF-8
  decoding as \<open>range\<close>, \<open>bufio.ReadRune\<close> and \<open>utf8.RuneStart\<close> see it, the functions
  of package \<open>strings\<close>, decimal printing and \<open>strconv.ParseInt\<close>; and the two
  character checks of config.go built on them.
\<close>

section \<open>UTF-8\<close>

abbreviation byteOf :: "char \<Rightarrow> nat" where
  "byteOf c \<equiv> of_char c"

definition runeError :: nat where
  "runeError = 0xFFFD"

text \<open>\<open>utf8.RuneStart\<close>: not a continuation byte.\<close>

definition runeStart :: "char \<Rightarrow> bool" where
  "runeStart c = (\<not> (0x80 \<le> byteOf c \<and> byteOf c < 0xC0))"

definition inRange :: "nat \<Rightarrow> nat \<Rightarrow> char \<Rightarrow> bool" where
  "inRange lo hi c = (lo \<le> byteOf c \<and> byteOf c \<le> hi)"

text \<open>
  The accept range of the second byte for a lead byte, with the sequence length: the
  table \<open>first\<close> of package \<open>utf8\<close>. \<open>None\<close> is a byte that starts no sequence.
\<close>

definition leadInfo :: "nat \<Rightarrow> (nat \<times> nat \<times> nat) option" where
  "leadInfo b =
     (if b < 0x80 then Some (1, 0, 0)
      else if b < 0xC2 then None
      else if b < 0xE0 then Some (2, 0x80, 0xBF)
      else if b = 0xE0 then Some (3, 0xA0, 0xBF)
      else if b < 0xED then Some (3, 0x80, 0xBF)
      else if b = 0xED then Some (3, 0x80, 0x9F)
      else if b < 0xF0 then Some (3, 0x80, 0xBF)
      else if b = 0xF0 then Some (4, 0x90, 0xBF)
      else if b < 0xF4 then Some (4, 0x80, 0xBF)
      else if b = 0xF4 then Some (4, 0x80, 0x8F)
      else None)"

text \<open>\<open>utf8.DecodeRuneInString\<close>: the first rune and its width. A sequence that is cut
  short or has a byte outside its range is \<open>RuneError\<close> of width 1.\<close>

fun contBytesOK :: "nat \<Rightarrow> nat \<Rightarrow> string \<Rightarrow> bool" where
  "contBytesOK lo hi [] = True"
| "contBytesOK lo hi (c # cs) = (inRange lo hi c \<and> list_all (inRange 0x80 0xBF) cs)"

definition leadBits :: "nat \<Rightarrow> nat \<Rightarrow> nat" where
  "leadBits n b = (if n = 1 then b else if n = 2 then b mod 0x20 else if n = 3 then b mod 0x10 else b mod 0x08)"

fun decodeRune :: "string \<Rightarrow> nat \<times> nat" where
  "decodeRune [] = (runeError, 0)"
| "decodeRune (c # cs) =
     (case leadInfo (byteOf c) of
        None \<Rightarrow> (runeError, 1)
      | Some (n, lo, hi) \<Rightarrow>
          if length cs < n - 1 \<or> \<not> contBytesOK lo hi (take (n - 1) cs) then (runeError, 1)
          else (foldl (\<lambda>r b. r * 0x40 + byteOf b mod 0x40) (leadBits n (byteOf c)) (take (n - 1) cs), n))"

declare decodeRune.simps(2) [simp del]

lemma leadInfo_cases:
  assumes "leadInfo b = Some (n, lo, hi)"
  shows "n = 1 \<and> b < 0x80
    \<or> n = 2 \<and> 0xC2 \<le> b \<and> b < 0xE0 \<and> lo = 0x80 \<and> hi = 0xBF
    \<or> n = 3 \<and> 0xE0 \<le> b \<and> b < 0xF0 \<and> 0x80 \<le> lo \<and> hi \<le> 0xBF \<and> (b = 0xE0 \<longrightarrow> lo = 0xA0)
    \<or> n = 4 \<and> 0xF0 \<le> b \<and> b \<le> 0xF4 \<and> 0x80 \<le> lo \<and> hi \<le> 0xBF \<and> (b = 0xF0 \<longrightarrow> lo = 0x90)"
  using assms by (auto simp: leadInfo_def split: if_splits)

lemma leadInfo_width: "leadInfo b = Some (n, lo, hi) \<Longrightarrow> 1 \<le> n \<and> n \<le> 4"
  by (auto dest: leadInfo_cases)

lemma decodeRune_width: "s \<noteq> [] \<Longrightarrow> 1 \<le> snd (decodeRune s) \<and> snd (decodeRune s) \<le> length s"
  by (cases s) (auto simp: decodeRune.simps(2) split: option.splits dest: leadInfo_width)

text \<open>The runes a \<open>range\<close> loop over a string visits, in order.\<close>

function goRunes :: "string \<Rightarrow> nat list" where
  "goRunes s = (if s = [] then [] else fst (decodeRune s) # goRunes (drop (snd (decodeRune s)) s))"
  by pat_completeness auto
termination
proof (relation "measure length", goal_cases)
  case 1
  then show ?case by simp
next
  case (2 s)
  with decodeRune_width [OF 2] show ?case by simp
qed

declare goRunes.simps [simp del]

lemma goRunes_Nil [simp]: "goRunes [] = []"
  by (simp add: goRunes.simps)

lemma goRunes_nonempty:
  "s \<noteq> [] \<Longrightarrow> goRunes s = fst (decodeRune s) # goRunes (drop (snd (decodeRune s)) s)"
  by (subst goRunes.simps) simp

text \<open>ASCII is transparent: an ASCII byte decodes to itself, and no other byte takes part
  in a rune below \<open>0x80\<close>.\<close>

lemma decodeRune_ascii [simp]: "byteOf c < 0x80 \<Longrightarrow> decodeRune (c # cs) = (byteOf c, 1)"
  by (simp add: decodeRune.simps(2) leadInfo_def leadBits_def)

lemma contBytesOK_ge: "contBytesOK lo hi cs \<Longrightarrow> 0x80 \<le> lo \<Longrightarrow> \<forall>b \<in> set cs. 0x80 \<le> byteOf b"
  by (cases cs) (auto simp: inRange_def list_all_iff)

lemma decodeRune_nonascii_bytes:
  assumes "0x80 \<le> byteOf c"
  shows "\<forall>b \<in> set (take (snd (decodeRune (c # cs))) (c # cs)). 0x80 \<le> byteOf b"
proof (cases "leadInfo (byteOf c)")
  case None
  then show ?thesis using assms by (simp add: decodeRune.simps(2))
next
  case (Some t)
  obtain n lo hi where t: "t = (n, lo, hi)" by (cases t)
  from Some t assms have n: "2 \<le> n" and lo: "0x80 \<le> lo"
    by (auto dest!: leadInfo_cases)
  have "\<forall>b \<in> set (take (n - 1) cs). 0x80 \<le> byteOf b" if "contBytesOK lo hi (take (n - 1) cs)"
    using contBytesOK_ge [OF that lo] .
  with Some t n assms show ?thesis
    by (auto simp: decodeRune.simps(2) take_Cons' split: if_splits)
qed

lemma leadBits_ge:
  "0xC2 \<le> b \<Longrightarrow> b < 0xE0 \<Longrightarrow> 2 \<le> leadBits 2 b"
  "0xE0 < b \<Longrightarrow> b < 0xF0 \<Longrightarrow> 1 \<le> leadBits 3 b"
  "0xF0 < b \<Longrightarrow> b \<le> 0xF4 \<Longrightarrow> 1 \<le> leadBits 4 b"
  by (simp_all add: leadBits_def le_mod_geq)

lemma contBits_ge:
  "0xA0 \<le> b \<Longrightarrow> b \<le> 0xBF \<Longrightarrow> 0x20 \<le> b mod (0x40::nat)"
  "0x90 \<le> b \<Longrightarrow> b \<le> 0xBF \<Longrightarrow> 0x10 \<le> b mod (0x40::nat)"
  by (simp_all add: le_mod_geq)

lemma decodeRune_nonascii_rune:
  assumes "0x80 \<le> byteOf c"
  shows "0x80 \<le> fst (decodeRune (c # cs))"
proof (cases "\<exists>n lo hi. leadInfo (byteOf c) = Some (n, lo, hi) \<and> n - 1 \<le> length cs
    \<and> contBytesOK lo hi (take (n - 1) cs)")
  case False
  then show ?thesis
    by (auto simp: decodeRune.simps(2) runeError_def not_le split: option.splits)
next
  case True
  then obtain n lo hi where li: "leadInfo (byteOf c) = Some (n, lo, hi)"
    and len: "n - 1 \<le> length cs" and ok: "contBytesOK lo hi (take (n - 1) cs)" by blast
  consider (two) "n = 2" "2 \<le> leadBits 2 (byteOf c)"
    | (three) "n = 3" "byteOf c = 0xE0 \<and> lo = 0xA0 \<or> 1 \<le> leadBits 3 (byteOf c)" "hi \<le> 0xBF"
    | (four) "n = 4" "byteOf c = 0xF0 \<and> lo = 0x90 \<or> 1 \<le> leadBits 4 (byteOf c)" "hi \<le> 0xBF"
    using leadInfo_cases [OF li] assms leadBits_ge [of "byteOf c"]
    by (metis le_neq_implies_less leD)
  then show ?thesis
  proof cases
    case two
    with len obtain c1 r where "cs = c1 # r" by (cases cs) auto
    with two li ok show ?thesis by (auto simp: decodeRune.simps(2))
  next
    case three
    with len obtain c1 c2 r where cs: "cs = c1 # c2 # r"
      by (cases cs; cases "tl cs") (auto simp: numeral_eq_Suc)
    with three ok have "0x20 \<le> byteOf c1 mod 0x40 \<or> 1 \<le> leadBits 3 (byteOf c)"
      by (auto simp: inRange_def intro: contBits_ge(1))
    with three cs li ok show ?thesis by (auto simp: decodeRune.simps(2))
  next
    case four
    with len obtain c1 c2 c3 r where cs: "cs = c1 # c2 # c3 # r"
      by (cases cs; cases "tl cs"; cases "tl (tl cs)") (auto simp: numeral_eq_Suc)
    with four have tk: "take 3 cs = [c1, c2, c3]" by (simp add: eval_nat_numeral)
    with four ok have "0x10 \<le> byteOf c1 mod 0x40 \<or> 1 \<le> leadBits 4 (byteOf c)"
      by (auto simp: inRange_def intro: contBits_ge(2))
    then have "0x80 \<le> ((leadBits 4 (byteOf c) * 0x40 + byteOf c1 mod 0x40) * 0x40
        + byteOf c2 mod 0x40) * 0x40 + byteOf c3 mod 0x40" by auto
    with four len li ok show ?thesis by (simp add: decodeRune.simps(2) tk)
  qed
qed

lemma filter_ascii_none: "\<forall>b \<in> set xs. 0x80 \<le> byteOf b \<Longrightarrow> filter (\<lambda>r. r < 0x80) (map byteOf xs) = []"
  by (auto simp: filter_empty_conv)

text \<open>A range loop sees exactly the ASCII bytes of a string, in order, whatever else the
  string holds, valid UTF-8 or not.\<close>

lemma goRunes_ascii:
  "filter (\<lambda>r. r < 0x80) (goRunes s) = filter (\<lambda>r. r < 0x80) (map byteOf s)"
proof (induction s rule: goRunes.induct)
  case (1 s)
  show ?case
  proof (cases s)
    case Nil
    then show ?thesis by simp
  next
    case (Cons c cs)
    let ?n = "snd (decodeRune s)"
    from Cons 1 have IH: "filter (\<lambda>r. r < 0x80) (goRunes (drop ?n s))
        = filter (\<lambda>r. r < 0x80) (map byteOf (drop ?n s))" by simp
    have "filter (\<lambda>r. r < 0x80) (map byteOf s) =
        filter (\<lambda>r. r < 0x80) (map byteOf (take ?n s)) @ filter (\<lambda>r. r < 0x80) (map byteOf (drop ?n s))"
      by (metis append_take_drop_id filter_append map_append)
    also have "filter (\<lambda>r. r < 0x80) (map byteOf (take ?n s)) =
        filter (\<lambda>r. r < 0x80) [fst (decodeRune s)]"
    proof (cases "byteOf c < 0x80")
      case True
      then show ?thesis by (simp add: Cons)
    next
      case False
      then have ge: "0x80 \<le> byteOf c" by simp
      have "filter (\<lambda>r. r < 0x80) (map byteOf (take ?n s)) = []"
        unfolding Cons by (rule filter_ascii_none [OF decodeRune_nonascii_bytes [OF ge]])
      moreover have "\<not> fst (decodeRune s) < 0x80"
        unfolding Cons using decodeRune_nonascii_rune [OF ge, of cs] by simp
      ultimately show ?thesis by simp
    qed
    finally show ?thesis using IH Cons by (simp add: goRunes_nonempty)
  qed
qed

lemma list_ex_goRunes_ascii:
  assumes "\<And>r. P r \<Longrightarrow> r < 0x80"
  shows "list_ex P (goRunes s) = list_ex (\<lambda>c. P (byteOf c)) s"
proof -
  have *: "list_ex P xs = list_ex P (filter (\<lambda>r. r < 0x80) xs)" for xs :: "nat list"
    using assms by (auto simp: list_ex_iff)
  show ?thesis
    by (subst *, subst goRunes_ascii, subst * [symmetric]) (simp add: list_ex_iff)
qed

section \<open>Package strings\<close>

text \<open>\<open>strings.ContainsAny\<close> and \<open>strings.ContainsRune\<close> for ASCII arguments, which is
  how the program calls them.\<close>

definition containsAny :: "string \<Rightarrow> string \<Rightarrow> bool" where
  "containsAny s chars = list_ex (\<lambda>c. c \<in> set chars) s"

definition containsChar :: "string \<Rightarrow> char \<Rightarrow> bool" where
  "containsChar s c = (c \<in> set s)"

lemma containsAny_iff: "containsAny s chars \<longleftrightarrow> (\<exists>c \<in> set s. c \<in> set chars)"
  by (simp add: containsAny_def list_ex_iff)

text \<open>\<open>strings.Cut\<close> at a one-byte separator: before, after, found.\<close>

definition goCut :: "string \<Rightarrow> char \<Rightarrow> string \<times> string \<times> bool" where
  "goCut s sep =
     (if sep \<in> set s then (takeWhile (\<lambda>c. c \<noteq> sep) s, tl (dropWhile (\<lambda>c. c \<noteq> sep) s), True)
      else (s, [], False))"

lemma takeWhile_tl_dropWhile:
  "x \<in> set s \<Longrightarrow> s = takeWhile (\<lambda>c. c \<noteq> x) s @ x # tl (dropWhile (\<lambda>c. c \<noteq> x) s)"
  by (induction s) auto

lemma goCut_found: "goCut s sep = (a, b, True) \<Longrightarrow> s = a @ sep # b \<and> sep \<notin> set a"
  using takeWhile_tl_dropWhile [of sep s]
  by (auto simp: goCut_def split: if_splits dest: set_takeWhileD)

lemma goCut_append: "sep \<notin> set a \<Longrightarrow> goCut (a @ sep # b) sep = (a, b, True)"
  unfolding goCut_def by (induction a) auto

definition trimSuffix :: "string \<Rightarrow> string \<Rightarrow> string" where
  "trimSuffix s suf = (if suffix suf s then take (length s - length suf) s else s)"

text \<open>\<open>unicode.IsSpace\<close>: the code points with the property White_Space.\<close>

definition isSpaceRune :: "nat \<Rightarrow> bool" where
  "isSpaceRune r =
     (9 \<le> r \<and> r \<le> 13 \<or> r = 32 \<or> r = 0x85 \<or> r = 0xA0 \<or> r = 0x1680 \<or> 0x2000 \<le> r \<and> r \<le> 0x200A
      \<or> r = 0x2028 \<or> r = 0x2029 \<or> r = 0x202F \<or> r = 0x205F \<or> r = 0x3000)"

text \<open>\<open>utf8.DecodeLastRuneInString\<close>: step back over at most three continuation bytes to
  a rune start, decode there, and accept only a rune that ends at the end.\<close>

fun backToStart :: "nat \<Rightarrow> string \<Rightarrow> nat" where
  "backToStart 0 rs = 0"
| "backToStart (Suc k) [] = 0"
| "backToStart (Suc k) (c # rs) = (if runeStart c then 1 else Suc (backToStart k rs))"

definition decodeLastRune :: "string \<Rightarrow> nat \<times> nat" where
  "decodeLastRune s =
     (if s = [] then (runeError, 0)
      else (let k = min (length s) (backToStart 4 (rev s)); (r, n) = decodeRune (lastn k s)
            in if n = k then (r, n) else (runeError, 1)))"

lemma decodeLastRune_width:
  assumes "s \<noteq> []"
  shows "1 \<le> snd (decodeLastRune s) \<and> snd (decodeLastRune s) \<le> length s"
proof -
  obtain c r where rs: "rev s = c # r" using assms by (cases "rev s") auto
  have "1 \<le> backToStart 4 (rev s)" by (simp add: rs eval_nat_numeral)
  moreover have "1 \<le> length s" using assms by (cases s) auto
  ultimately show ?thesis
    using assms by (auto simp: decodeLastRune_def Let_def split: prod.splits)
qed

function trimLeftSpace :: "string \<Rightarrow> string" where
  "trimLeftSpace s =
     (if s \<noteq> [] \<and> isSpaceRune (fst (decodeRune s)) then trimLeftSpace (drop (snd (decodeRune s)) s)
      else s)"
  by pat_completeness auto
termination
proof (relation "measure length", goal_cases)
  case 1
  then show ?case by simp
next
  case (2 s)
  with decodeRune_width [of s] show ?case by simp
qed

function trimRightSpace :: "string \<Rightarrow> string" where
  "trimRightSpace s =
     (if s \<noteq> [] \<and> isSpaceRune (fst (decodeLastRune s))
      then trimRightSpace (take (length s - snd (decodeLastRune s)) s)
      else s)"
  by pat_completeness auto
termination
proof (relation "measure length", goal_cases)
  case 1
  then show ?case by simp
next
  case (2 s)
  with decodeLastRune_width [of s] show ?case by simp
qed

declare trimLeftSpace.simps [simp del] trimRightSpace.simps [simp del]

text \<open>\<open>strings.TrimSpace\<close>.\<close>

definition trimSpace :: "string \<Rightarrow> string" where
  "trimSpace s = trimRightSpace (trimLeftSpace s)"

text \<open>
  \<open>strings.ToLower\<close>: every rune through \<open>unicode.ToLower\<close>. ASCII letters are mapped
  here; the mapping of a rune from \<open>0x80\<close> up comes from the Unicode tables of the Go
  release, which are data and not program text, and is the argument \<open>tbl\<close>. An invalid
  byte becomes the encoding of \<open>RuneError\<close>, as \<open>strings.Map\<close> writes it.
\<close>

definition lowerRune :: "(nat \<Rightarrow> nat) \<Rightarrow> nat \<Rightarrow> nat" where
  "lowerRune tbl r = (if r < 0x80 then (if 65 \<le> r \<and> r \<le> 90 then r + 32 else r) else tbl r)"

text \<open>\<open>utf8.AppendRune\<close>.\<close>

definition encodeRune :: "nat \<Rightarrow> string" where
  "encodeRune r =
     (if r < 0x80 then [char_of r]
      else if r < 0x800 then [char_of (0xC0 + r div 0x40), char_of (0x80 + r mod 0x40)]
      else if 0xD800 \<le> r \<and> r \<le> 0xDFFF \<or> 0x10FFFF < r
        then [char_of (0xEF::nat), char_of (0xBF::nat), char_of (0xBD::nat)]
      else if r < 0x10000 then
        [char_of (0xE0 + r div 0x1000), char_of (0x80 + (r div 0x40) mod 0x40), char_of (0x80 + r mod 0x40)]
      else
        [char_of (0xF0 + r div 0x40000), char_of (0x80 + (r div 0x1000) mod 0x40),
         char_of (0x80 + (r div 0x40) mod 0x40), char_of (0x80 + r mod 0x40)])"

definition goToLower :: "(nat \<Rightarrow> nat) \<Rightarrow> string \<Rightarrow> string" where
  "goToLower tbl s = concat (map (encodeRune \<circ> lowerRune tbl) (goRunes s))"

section \<open>The character checks of config.go\<close>

text \<open>\<open>shellMetaChars\<close> (config.go): the semicolon, pipe, ampersand, dollar, backquote,
  angle brackets, parentheses, braces, backslash and both quotes.\<close>

definition shellMetaChars :: string where
  "shellMetaChars =
     [CHR '';'', CHR ''|'', CHR ''&'', CHR ''$'', CHR 0x60, CHR ''<'', CHR ''>'', CHR ''('', CHR '')'',
      CHR ''{'', CHR ''}'', CHR 0x5C, CHR 0x22, CHR 0x27]"

definition hasControl :: "string \<Rightarrow> bool" where
  "hasControl s = list_ex (\<lambda>r. r < 0x20 \<or> r = 0x7F) (goRunes s)"

definition hasShellMeta :: "string \<Rightarrow> bool" where
  "hasShellMeta s = (hasControl s \<or> containsAny s shellMetaChars)"

definition isControlByte :: "char \<Rightarrow> bool" where
  "isControlByte c = (byteOf c < 0x20 \<or> byteOf c = 0x7F)"

text \<open>The rune loop of \<open>hasControl\<close> misses no control byte and invents none.\<close>

lemma hasControl_bytes: "hasControl s \<longleftrightarrow> (\<exists>c \<in> set s. isControlByte c)"
  unfolding hasControl_def isControlByte_def
  by (subst list_ex_goRunes_ascii) (auto simp: list_ex_iff)

lemma not_hasControl_bytes: "\<not> hasControl s \<longleftrightarrow> (\<forall>c \<in> set s. \<not> isControlByte c)"
  by (simp add: hasControl_bytes)

section \<open>Decimal numbers\<close>

definition digitChar :: "nat \<Rightarrow> char" where
  "digitChar d = char_of (48 + d)"

fun natDec :: "nat \<Rightarrow> string" where
  "natDec n = (if n < 10 then [digitChar n] else natDec (n div 10) @ [digitChar (n mod 10)])"

declare natDec.simps [simp del]

text \<open>The verb \<open>%d\<close>.\<close>

definition intDec :: "int \<Rightarrow> string" where
  "intDec i = (if i < 0 then CHR ''-'' # natDec (nat (- i)) else natDec (nat i))"

text \<open>\<open>time.Duration.String\<close> on nanoseconds. \<open>fmtFrac\<close> writes a fraction of the given number of
  digits in front of a text, without trailing zeros, and leaves the integer part.\<close>

fun fmtFrac :: "nat \<Rightarrow> nat \<Rightarrow> bool \<Rightarrow> string \<Rightarrow> string \<times> nat" where
  "fmtFrac 0 v print acc = (if print then CHR ''.'' # acc else acc, v)"
| "fmtFrac (Suc prec) v print acc =
     (let digit = v mod 10; p = (print \<or> digit \<noteq> 0)
      in fmtFrac prec (v div 10) p (if p then digitChar digit # acc else acc))"

definition fmtUnder :: "nat \<Rightarrow> string" where
  "fmtUnder u =
     (if u = 0 then ''0s''
      else if u < 1000 then natDec u @ ''ns''
      else if u < 1000000 then (case fmtFrac 3 u False [CHR 0xC2, CHR 0xB5, CHR ''s''] of (w, v) \<Rightarrow> natDec v @ w)
      else (case fmtFrac 6 u False ''ms'' of (w, v) \<Rightarrow> natDec v @ w))"

definition fmtOver :: "nat \<Rightarrow> string" where
  "fmtOver u =
     (case fmtFrac 9 u False ''s'' of
        (w, v) \<Rightarrow>
          (let secs = natDec (v mod 60) @ w; mins = v div 60; hours = mins div 60
           in if mins = 0 then secs
              else if hours = 0 then natDec (mins mod 60) @ ''m'' @ secs
              else natDec hours @ ''h'' @ natDec (mins mod 60) @ ''m'' @ secs))"

definition durationString :: "int \<Rightarrow> string" where
  "durationString d =
     (if d < 0 then ''-'' else [])
     @ (if nat \<bar>d\<bar> < 1000000000 then fmtUnder (nat \<bar>d\<bar>) else fmtOver (nat \<bar>d\<bar>))"

definition isDigit :: "char \<Rightarrow> bool" where
  "isDigit c = (48 \<le> byteOf c \<and> byteOf c \<le> 57)"

definition digitVal :: "char \<Rightarrow> nat" where
  "digitVal c = byteOf c - 48"

definition decVal :: "string \<Rightarrow> nat" where
  "decVal s = foldl (\<lambda>v c. 10 * v + digitVal c) 0 s"

text \<open>
  \<open>strconv.ParseInt(s, 10, 64)\<close>: an optional sign, then at least one digit and nothing
  else; out of the range of \<open>int64\<close> is an error.
\<close>

definition parseInt64 :: "string \<Rightarrow> int option" where
  "parseInt64 s =
     (case s of
        [] \<Rightarrow> None
      | c # cs \<Rightarrow>
          (let neg = (c = CHR ''-''); ds = (if c = CHR ''-'' \<or> c = CHR ''+'' then cs else s)
           in if ds = [] \<or> \<not> list_all isDigit ds then None
              else (let v = int (decVal ds)
                    in if \<not> neg \<and> 2 ^ 63 \<le> v \<or> neg \<and> 2 ^ 63 < v then None
                       else Some (if neg then - v else v))))"

lemma byteOf_digitChar: "d < 10 \<Longrightarrow> byteOf (digitChar d) = 48 + d"
  by (simp add: digitChar_def)

lemma isDigit_digitChar [simp]: "d < 10 \<Longrightarrow> isDigit (digitChar d)"
  by (simp add: isDigit_def byteOf_digitChar)

lemma digitVal_digitChar [simp]: "d < 10 \<Longrightarrow> digitVal (digitChar d) = d"
  by (simp add: digitVal_def byteOf_digitChar)

lemma decVal_snoc: "decVal (s @ [c]) = 10 * decVal s + digitVal c"
  by (simp add: decVal_def)

lemma natDec_digits: "list_all isDigit (natDec n)"
proof (induction n rule: natDec.induct)
  case (1 n)
  then show ?case by (cases "n < 10") (simp_all add: natDec.simps [of n])
qed

lemma natDec_nonempty [simp]: "natDec n \<noteq> []"
  by (subst natDec.simps) simp

lemma decVal_natDec [simp]: "decVal (natDec n) = n"
proof (induction n rule: natDec.induct)
  case (1 n)
  then show ?case
    by (cases "n < 10") (simp_all add: natDec.simps [of n] decVal_snoc, simp add: decVal_def)
qed

text \<open>A digit is not a sign, a comma, a blank or a control byte.\<close>

lemma isDigit_distinct: "isDigit c \<Longrightarrow> c \<noteq> CHR ''-'' \<and> c \<noteq> CHR ''+'' \<and> c \<noteq> CHR '',''
    \<and> \<not> isControlByte c \<and> c \<noteq> CHR '' '' \<and> c \<noteq> CHR '':''"
  by (auto simp: isDigit_def isControlByte_def)

lemma parseInt64_digits:
  assumes "list_all isDigit ds" and "ds \<noteq> []"
  shows "parseInt64 ds = (if decVal ds < 2 ^ 63 then Some (int (decVal ds)) else None)"
proof -
  obtain c cs where ds: "ds = c # cs" using assms(2) by (cases ds) auto
  with assms have "c \<noteq> CHR ''-''" "c \<noteq> CHR ''+''" by (auto dest: isDigit_distinct)
  with ds assms show ?thesis by (auto simp: parseInt64_def Let_def not_less)
qed

lemma parseInt64_natDec: "n < 2 ^ 63 \<Longrightarrow> parseInt64 (natDec n) = Some (int n)"
  by (simp add: parseInt64_digits natDec_digits)

lemma parseInt64_range: "parseInt64 s = Some i \<Longrightarrow> - (2 ^ 63) \<le> i \<and> i < 2 ^ 63"
  by (auto simp: parseInt64_def Let_def split: list.splits if_splits)

lemma natDec_no_control: "c \<in> set (natDec n) \<Longrightarrow> \<not> isControlByte c"
  using natDec_digits [of n] by (auto simp: list_all_iff dest: isDigit_distinct)

lemma intDec_no_control: "c \<in> set (intDec i) \<Longrightarrow> \<not> isControlByte c"
  by (auto simp: intDec_def isControlByte_def [of "CHR ''-''"] dest: natDec_no_control split: if_splits)

section \<open>Properties\<close>

text \<open>The rune-wise control-character test is a byte-wise one: on every
  byte string, valid UTF-8 or not, it finds a control character exactly when some byte is
  below \<open>0x20\<close> or is \<open>0x7F\<close>.\<close>

lemma hasControl_bytewise:
  "hasControl s \<longleftrightarrow> (\<exists>c \<in> set s. byteOf c < 0x20 \<or> byteOf c = 0x7F)"
  using hasControl_bytes [of s] by (auto simp: isControlByte_def)

end
