(* ===== verification/GoRegexp.thy ===== *)
theory GoRegexp
  imports GoText
begin

text \<open>
  The fragment of package \<open>regexp\<close> the program compiles: sequences of literals, single
  characters of a class, greedy repetitions of a class, one captured repetition, and the
  end-of-text anchor. Matching is leftmost-first, as RE2 defines it: the leftmost start
  wins, and a repetition prefers more input over less.
\<close>

section \<open>Patterns and matching\<close>

datatype reItem =
    ReLit string                    \<comment> \<open>literal text\<close>
  | ReOne "char \<Rightarrow> bool"            \<comment> \<open>one character of a class\<close>
  | ReStar "char \<Rightarrow> bool"           \<comment> \<open>class, zero or more times, greedy\<close>
  | ReCapPlus "char \<Rightarrow> bool"        \<comment> \<open>class, one or more times, greedy, captured\<close>
  | ReEnd                           \<comment> \<open>end of text\<close>

fun firstSome :: "('a \<Rightarrow> 'b option) \<Rightarrow> 'a list \<Rightarrow> 'b option" where
  "firstSome f [] = None"
| "firstSome f (x # xs) = (case f x of Some y \<Rightarrow> Some y | None \<Rightarrow> firstSome f xs)"

text \<open>Match at the start of the text; the result is the list of captures.\<close>

fun reMatchAt :: "reItem list \<Rightarrow> string \<Rightarrow> string list option" where
  "reMatchAt [] s = Some []"
| "reMatchAt (ReLit l # r) s = (if prefix l s then reMatchAt r (drop (length l) s) else None)"
| "reMatchAt (ReOne p # r) s =
     (case s of [] \<Rightarrow> None | c # cs \<Rightarrow> if p c then reMatchAt r cs else None)"
| "reMatchAt (ReStar p # r) s =
     firstSome (\<lambda>k. reMatchAt r (drop k s)) (rev [0..<Suc (length (takeWhile p s))])"
| "reMatchAt (ReCapPlus p # r) s =
     firstSome (\<lambda>k. map_option (\<lambda>m. take k s # m) (reMatchAt r (drop k s)))
       (rev [1..<Suc (length (takeWhile p s))])"
| "reMatchAt (ReEnd # r) s = (if s = [] then reMatchAt r s else None)"

text \<open>\<open>FindStringSubmatch\<close>, captures only: the leftmost start at which the pattern
  matches.\<close>

fun reFind :: "reItem list \<Rightarrow> string \<Rightarrow> string list option" where
  "reFind r [] = reMatchAt r []"
| "reFind r (c # cs) = (case reMatchAt r (c # cs) of Some m \<Rightarrow> Some m | None \<Rightarrow> reFind r cs)"

section \<open>The login and host name pattern\<close>

definition isAlnum :: "char \<Rightarrow> bool" where
  "isAlnum c =
     (let b = byteOf c
      in 65 \<le> b \<and> b \<le> 90 \<or> 97 \<le> b \<and> b \<le> 122 \<or> 48 \<le> b \<and> b \<le> 57)"

definition isNameChar :: "char \<Rightarrow> bool" where
  "isNameChar c = (isAlnum c \<or> c = CHR ''.'' \<or> c = CHR ''_'' \<or> c = CHR ''-'')"

text \<open>The text of both \<open>userRE\<close> and \<open>hostnameRE\<close>, after its start-of-text anchor.\<close>

definition nameRE :: "reItem list" where
  "nameRE = [ReOne isAlnum, ReStar isNameChar, ReEnd]"

text \<open>\<open>userRE.MatchString\<close> and \<open>hostnameRE.MatchString\<close>: anchored at the start.\<close>

definition userRE :: "string \<Rightarrow> bool" where
  "userRE s = (reMatchAt nameRE s \<noteq> None)"

definition hostnameRE :: "string \<Rightarrow> bool" where
  "hostnameRE s = (reMatchAt nameRE s \<noteq> None)"

definition isName :: "string \<Rightarrow> bool" where
  "isName s = (case s of [] \<Rightarrow> False | c # cs \<Rightarrow> isAlnum c \<and> list_all isNameChar cs)"

section \<open>Matching lemmas\<close>

lemma firstSome_None_iff: "firstSome f xs = None \<longleftrightarrow> (\<forall>x \<in> set xs. f x = None)"
  by (induction xs) (auto split: option.splits)

lemma firstSome_first: "f x = Some y \<Longrightarrow> firstSome f (x # xs) = Some y"
  by simp

lemma reMatchAt_star_end:
  "reMatchAt [ReStar p, ReEnd] s \<noteq> None \<longleftrightarrow> list_all p s"
proof
  assume "reMatchAt [ReStar p, ReEnd] s \<noteq> None"
  then have "\<exists>k. k \<le> length (takeWhile p s) \<and> drop k s = []"
    unfolding reMatchAt.simps(4) firstSome_None_iff by (auto split: if_splits)
  then obtain k where "k \<le> length (takeWhile p s)" "drop k s = []" by blast
  then have "length (takeWhile p s) = length s"
    using length_takeWhile_le [of p s] by simp
  then have "takeWhile p s = s"
    by (metis takeWhile_eq_take take_all order_refl)
  then show "list_all p s" by (simp add: takeWhile_eq_all_conv list_all_iff)
next
  assume "list_all p s"
  then have "takeWhile p s = s" by (simp add: takeWhile_eq_all_conv list_all_iff)
  then have "length (takeWhile p s) = length s" by metis
  then show "reMatchAt [ReStar p, ReEnd] s \<noteq> None" by simp
qed

lemma nameRE_iff: "reMatchAt nameRE s \<noteq> None \<longleftrightarrow> isName s"
  using reMatchAt_star_end [of isNameChar "tl s"]
  by (auto simp: nameRE_def isName_def simp del: reMatchAt.simps(4) split: list.splits)

lemma userRE_iff [check_iff]: "userRE s \<longleftrightarrow> isName s"
  unfolding userRE_def by (rule nameRE_iff)

lemma hostnameRE_iff [check_iff]: "hostnameRE s \<longleftrightarrow> isName s"
  unfolding hostnameRE_def by (rule nameRE_iff)

lemma isName_chars: "isName s \<Longrightarrow> c \<in> set s \<Longrightarrow> isNameChar c"
  by (cases s) (auto simp: isName_def isNameChar_def list_all_iff)

text \<open>None of the characters an interpreter of the destination gives a meaning to is a
  name character.\<close>

lemma isNameChar_safe:
  "isNameChar c \<Longrightarrow> \<not> isControlByte c \<and> c \<notin> set shellMetaChars
     \<and> c \<notin> {CHR '':'', CHR ''@'', CHR ''['', CHR '']'', CHR ''/'', CHR '' '', CHR ''*'', CHR ''?'', CHR 0x25}"
  by (auto simp: isNameChar_def isAlnum_def isControlByte_def shellMetaChars_def Let_def)

lemma isName_hd: "isName s \<Longrightarrow> s \<noteq> [] \<and> isAlnum (hd s)"
  by (cases s) (auto simp: isName_def)

text \<open>A literal, blanks, then a captured run: the first occurrence of the literal decides.\<close>

lemma takeWhile_append_stop:
  "list_all p xs \<Longrightarrow> ys = [] \<or> \<not> p (hd ys) \<Longrightarrow> takeWhile p (xs @ ys) = xs"
  by (induction xs) (cases ys; auto)+

lemma reMatchAt_capPlus:
  assumes "list_all p v" and "v \<noteq> []" and "post = [] \<or> \<not> p (hd post)"
  shows "reMatchAt [ReCapPlus p] (v @ post) = Some [v]"
proof -
  have tw: "takeWhile p (v @ post) = v" by (rule takeWhile_append_stop [OF assms(1,3)])
  have "rev [1..<Suc (length v)] = length v # rev [1..<length v]"
    using assms(2) by (cases v) auto
  then show ?thesis by (simp only: reMatchAt.simps tw) simp
qed

lemma reMatchAt_star_prefix:
  assumes "list_all p ws" and "post = [] \<or> \<not> p (hd post)" and "reMatchAt r post = Some m"
  shows "reMatchAt (ReStar p # r) (ws @ post) = Some m"
proof -
  have tw: "takeWhile p (ws @ post) = ws" by (rule takeWhile_append_stop [OF assms(1,2)])
  show ?thesis by (simp only: reMatchAt.simps tw) (simp add: assms(3))
qed

lemma reFind_first:
  assumes "reMatchAt r s = Some m" and "\<And>i. i < length pre \<Longrightarrow> reMatchAt r (drop i (pre @ s)) = None"
  shows "reFind r (pre @ s) = Some m"
  using assms(2)
proof (induction pre)
  case Nil
  then show ?case using assms(1) by (cases s) simp_all
next
  case (Cons c pre)
  from Cons.prems [of 0] have "reMatchAt r (c # pre @ s) = None" by simp
  moreover have "reFind r (pre @ s) = Some m"
  proof (rule Cons.IH)
    fix i assume "i < length pre"
    then show "reMatchAt r (drop i (pre @ s)) = None" using Cons.prems [of "Suc i"] by simp
  qed
  ultimately show ?case by simp
qed

lemma reFind_none:
  assumes "\<And>i. i \<le> length s \<Longrightarrow> reMatchAt r (drop i s) = None"
  shows "reFind r s = None"
  using assms
proof (induction s)
  case Nil
  then show ?case by simp
next
  case (Cons c s)
  have "reFind r s = None"
  proof (rule Cons.IH)
    fix i assume "i \<le> length s"
    then show "reMatchAt r (drop i s) = None" using Cons.prems [of "Suc i"] by simp
  qed
  with Cons.prems [of 0] show ?case by simp
qed

end
