(* ===== verification/NetIP.thy ===== *)
theory NetIP
  imports GoRegexp
begin

text \<open>
  \<open>net.ParseIP\<close> and \<open>net.IP.String\<close> as the program uses them: which host spellings
  are address literals, the sixteen bytes they denote, and the canonical text of an
  address. The parsers follow \<open>netip.parseIPv4Fields\<close> and \<open>netip.parseIPv6\<close> of the
  Go standard library.
\<close>

section \<open>Parsing\<close>

definition isHex :: "char \<Rightarrow> bool" where
  "isHex c =
     (let b = byteOf c
      in 48 \<le> b \<and> b \<le> 57 \<or> 97 \<le> b \<and> b \<le> 102 \<or> 65 \<le> b \<and> b \<le> 70)"

definition hexDigitVal :: "char \<Rightarrow> nat" where
  "hexDigitVal c =
     (let b = byteOf c
      in if 48 \<le> b \<and> b \<le> 57 then b - 48 else if 97 \<le> b \<and> b \<le> 102 then b - 87 else b - 55)"

definition hexVal :: "string \<Rightarrow> nat" where
  "hexVal s = foldl (\<lambda>v c. 16 * v + hexDigitVal c) 0 s"

text \<open>
  \<open>parseIPv4Fields\<close>: the previous byte, the value and digit count of the current octet,
  the octets read so far, and the rest of the text.
\<close>

fun ipv4Fields :: "char option \<Rightarrow> nat \<Rightarrow> nat \<Rightarrow> nat list \<Rightarrow> string \<Rightarrow> nat list option" where
  "ipv4Fields prev val digLen fs [] = (if length fs < 3 then None else Some (fs @ [val]))"
| "ipv4Fields prev val digLen fs (c # cs) =
     (if isDigit c then
        (if digLen = 1 \<and> val = 0 then None
         else let v = val * 10 + digitVal c
              in if 255 < v then None else ipv4Fields (Some c) v (digLen + 1) fs cs)
      else if c = CHR ''.'' then
        (if prev = None \<or> cs = [] \<or> prev = Some (CHR ''.'') then None
         else if length fs = 3 then None
         else ipv4Fields (Some c) 0 0 (fs @ [val]) cs)
      else None)"

definition parseIPv4 :: "string \<Rightarrow> nat list option" where
  "parseIPv4 s = ipv4Fields None 0 0 [] s"

text \<open>
  The group loop of \<open>parseIPv6\<close>: the bytes written so far, the position of the
  ellipsis, and the rest of the text; the result is what the loop leaves.
\<close>

function parse6Loop :: "nat list \<Rightarrow> nat option \<Rightarrow> string \<Rightarrow> (nat list \<times> nat option \<times> string) option" where
  "parse6Loop ip ell s =
     (if 16 \<le> length ip then Some (ip, ell, s)
      else let h = takeWhile isHex s; r = dropWhile isHex s
           in if 4 < length h \<or> h = [] then None
              else if r \<noteq> [] \<and> hd r = CHR ''.'' then
                (if ell = None \<and> length ip \<noteq> 12 then None
                 else if 16 < length ip + 4 then None
                 else (case ipv4Fields None 0 0 [] s of
                         None \<Rightarrow> None
                       | Some fs \<Rightarrow> Some (ip @ fs, ell, [])))
              else
                (let ip' = ip @ [hexVal h div 0x100, hexVal h mod 0x100]
                 in (case r of
                       [] \<Rightarrow> Some (ip', ell, [])
                     | c # r1 \<Rightarrow>
                         if c \<noteq> CHR '':'' then None
                         else if r1 = [] then None
                         else if hd r1 = CHR '':'' then
                           (if ell \<noteq> None then None
                            else if tl r1 = [] then Some (ip', Some (length ip'), [])
                            else parse6Loop ip' (Some (length ip')) (tl r1))
                         else parse6Loop ip' ell r1)))"
  by pat_completeness auto
termination
  by (relation "measure (\<lambda>(ip, ell, s). 16 - length ip)") auto

declare parse6Loop.simps [simp del]

definition parseIPv6 :: "string \<Rightarrow> nat list option" where
  "parseIPv6 s =
     (let lead = prefix ''::'' s; ell = (if lead then Some 0 else None); s' = (if lead then drop 2 s else s)
      in if lead \<and> s' = [] then Some (replicate 16 0)
         else (case parse6Loop [] ell s' of
                 None \<Rightarrow> None
               | Some (ip, e, rest) \<Rightarrow>
                   if rest \<noteq> [] then None
                   else if length ip < 16 then
                     (case e of
                        None \<Rightarrow> None
                      | Some k \<Rightarrow> Some (take k ip @ replicate (16 - length ip) 0 @ drop k ip))
                   else if e \<noteq> None then None
                   else Some ip))"

definition v4Prefix :: "nat list" where
  "v4Prefix = replicate 10 0 @ [0xFF, 0xFF]"

text \<open>
  \<open>net.ParseIP\<close>: \<open>netip.ParseAddr\<close> decides by the first of the bytes dot, colon and
  percent; an address with a zone is refused; the result is the 16-byte form.
\<close>

definition parseIP :: "string \<Rightarrow> nat list option" where
  "parseIP s =
     (case dropWhile (\<lambda>c. c \<notin> {CHR ''.'', CHR '':'', CHR 0x25}) s of
        [] \<Rightarrow> None
      | c # _ \<Rightarrow>
          if c = CHR ''.'' then map_option (\<lambda>fs. v4Prefix @ fs) (parseIPv4 s)
          else if c = CHR '':'' then (if CHR 0x25 \<in> set s then None else parseIPv6 s)
          else None)"

section \<open>Printing\<close>

definition hexChar :: "nat \<Rightarrow> char" where
  "hexChar d = char_of (if d < 10 then 48 + d else 87 + d)"

text \<open>\<open>appendHex\<close>: lower case, no leading zeros.\<close>

fun natHex :: "nat \<Rightarrow> string" where
  "natHex n = (if n < 16 then [hexChar n] else natHex (n div 16) @ [hexChar (n mod 16)])"

declare natHex.simps [simp del]

text \<open>The eight 16-bit groups of an address.\<close>

fun groupsOf :: "nat list \<Rightarrow> nat list" where
  "groupsOf (a # b # r) = (a * 0x100 + b) # groupsOf r"
| "groupsOf _ = []"

text \<open>The first longest run of at least two zero groups, as start and end; 255 is none.\<close>

definition zeroRunStep :: "nat list \<Rightarrow> nat \<times> nat \<Rightarrow> nat \<Rightarrow> nat \<times> nat" where
  "zeroRunStep g z i =
     (let l = length (takeWhile (\<lambda>x. x = 0) (drop i g))
      in if 2 \<le> l \<and> snd z - fst z < l then (i, i + l) else z)"

definition zeroRun :: "nat list \<Rightarrow> nat \<times> nat" where
  "zeroRun g = foldl (zeroRunStep g) (255, 255) [0..<8]"

function print6Loop :: "nat list \<Rightarrow> nat \<times> nat \<Rightarrow> nat \<Rightarrow> string" where
  "print6Loop g z i =
     (if 8 \<le> i then []
      else if i = fst z then
        (if 8 \<le> snd z then ''::''
         else ''::'' @ natHex (g ! snd z) @ print6Loop g z (Suc (max i (snd z))))
      else (if 0 < i then '':'' else []) @ natHex (g ! i) @ print6Loop g z (Suc i))"
  by pat_completeness auto
termination
  by (relation "measure (\<lambda>(g, z, i). 8 - i)") auto

declare print6Loop.simps [simp del]

text \<open>\<open>net.IP.String\<close> on a 16-byte address: dotted decimal for the IPv4-mapped range.\<close>

definition ipString :: "nat list \<Rightarrow> string" where
  "ipString ip =
     (if take 12 ip = v4Prefix then joinWith ''.'' (map natDec (drop 12 ip))
      else print6Loop (groupsOf ip) (zeroRun (groupsOf ip)) 0)"

section \<open>What an address literal can hold\<close>

definition isIPChar :: "char \<Rightarrow> bool" where
  "isIPChar c = (isHex c \<or> c = CHR ''.'' \<or> c = CHR '':'')"

lemma isDigit_isHex: "isDigit c \<Longrightarrow> isHex c"
  by (simp add: isDigit_def isHex_def Let_def)

lemma ipv4Fields_chars: "ipv4Fields prev val n fs s = Some r \<Longrightarrow> list_all isIPChar s"
  by (induction prev val n fs s rule: ipv4Fields.induct)
     (auto simp: isIPChar_def isDigit_isHex Let_def split: if_splits)

lemma takeWhile_isHex_ip: "list_all isIPChar (takeWhile isHex s)"
  by (auto simp: list_all_iff isIPChar_def dest: set_takeWhileD)

lemma list_all_split: "list_all P (takeWhile Q s) \<Longrightarrow> list_all P (dropWhile Q s) \<Longrightarrow> list_all P s"
  by (metis list_all_append takeWhile_dropWhile_id)

text \<open>The ways one round of the group loop can succeed.\<close>

lemma parse6Loop_elim:
  fixes ip s
  defines "ip' \<equiv> ip @ [hexVal (takeWhile isHex s) div 0x100, hexVal (takeWhile isHex s) mod 0x100]"
  assumes "parse6Loop ip ell s = Some t" and "length ip < 16"
  obtains (v4) fs where "ipv4Fields None 0 0 [] s = Some fs" "t = (ip @ fs, ell, [])" "length ip + 4 \<le> 16"
  | (last) "dropWhile isHex s = []" "t = (ip', ell, [])" "length (takeWhile isHex s) \<le> 4"
  | (lastEll) "dropWhile isHex s = ''::''" "t = (ip', Some (length ip'), [])" "length (takeWhile isHex s) \<le> 4"
  | (ell) r where "dropWhile isHex s = CHR '':'' # CHR '':'' # r" "parse6Loop ip' (Some (length ip')) r = Some t"
      "length (takeWhile isHex s) \<le> 4"
  | (more) r where "dropWhile isHex s = CHR '':'' # r" "parse6Loop ip' ell r = Some t"
      "length (takeWhile isHex s) \<le> 4"
proof (cases "dropWhile isHex s")
  case Nil
  with assms last show ?thesis
    by (auto simp: parse6Loop.simps [of ip ell s] Let_def split: if_splits)
next
  case (Cons c r1)
  note dw = this
  show ?thesis
  proof (cases "c = CHR ''.''")
    case True
    with assms dw v4 show ?thesis
      by (auto simp: parse6Loop.simps [of ip ell s] Let_def split: if_splits option.splits)
  next
    case False
    with assms dw have c: "c = CHR '':''" and r1: "r1 \<noteq> []"
      by (auto simp: parse6Loop.simps [of ip ell s] Let_def split: if_splits)
    then obtain d r2 where r12: "r1 = d # r2" by (cases r1) auto
    show ?thesis
    proof (cases "d = CHR '':''")
      case True
      with assms dw c r12 lastEll ell show ?thesis
        by (auto simp: parse6Loop.simps [of ip ell s] Let_def split: if_splits)
    next
      case False
      with assms dw c r12 more show ?thesis
        by (auto simp: parse6Loop.simps [of ip ell s] Let_def split: if_splits)
    qed
  qed
qed

lemma parse6Loop_chars:
  "parse6Loop ip ell s = Some (ip', e, rest) \<Longrightarrow> list_all isIPChar rest \<Longrightarrow> list_all isIPChar s"
proof (induction "length s" arbitrary: ip ell s rule: less_induct)
  case less
  show ?case
  proof (cases "16 \<le> length ip")
    case True
    with less.prems show ?thesis by (simp add: parse6Loop.simps [of ip ell s])
  next
    case False
    note splitI = list_all_split [OF takeWhile_isHex_ip]
    have colon: "isIPChar (CHR '':'')" by (simp add: isIPChar_def)
    have shorter: "length r < length s" if "dropWhile isHex s = x # r" for x r
      using that by (metis length_dropWhile_le length_Cons Suc_le_lessD)
    from False have "length ip < 16" by simp
    with less.prems(1) show ?thesis
    proof (cases rule: parse6Loop_elim)
      case (v4 fs)
      then show ?thesis by (auto dest: ipv4Fields_chars)
    next
      case last
      show ?thesis by (rule splitI) (simp only: last(1) list.pred_inject)
    next
      case lastEll
      with colon show ?thesis by - (rule splitI, simp)
    next
      case (ell r)
      from shorter [OF ell(1)] have "length r < length s" by simp
      with less.hyps ell(2) less.prems(2) have "list_all isIPChar r" by blast
      with colon ell(1) show ?thesis by - (rule splitI, simp)
    next
      case (more r)
      with less.hyps [OF shorter [OF more(1)] more(2) less.prems(2)] colon
      show ?thesis by - (rule splitI, simp)
    qed
  qed
qed

lemma parseIPv6_chars: "parseIPv6 s = Some ip \<Longrightarrow> list_all isIPChar s"
proof -
  assume a: "parseIPv6 s = Some ip"
  define lead where "lead = prefix ''::'' s"
  define s' where "s' = (if lead then drop 2 s else s)"
  have s: "list_all isIPChar s" if "list_all isIPChar s'"
    using that by (auto simp: s'_def lead_def prefix_def isIPChar_def split: if_splits)
  show ?thesis
  proof (cases "parse6Loop [] (if lead then Some 0 else None) s'")
    case None
    with a have "s' = []"
      unfolding parseIPv6_def Let_def lead_def [symmetric] s'_def [symmetric]
      by (simp split: if_splits)
    then show ?thesis by (intro s) simp
  next
    case (Some t)
    obtain i e r where t: "t = (i, e, r)" by (cases t)
    from a Some t have "r = [] \<or> s' = []"
      unfolding parseIPv6_def Let_def lead_def [symmetric] s'_def [symmetric]
      by (simp split: if_splits)
    with Some t show ?thesis
      using parse6Loop_chars [of "[]" "if lead then Some 0 else None" s' i e r] by (intro s) auto
  qed
qed

lemma parseIP_chars: "parseIP s = Some ip \<Longrightarrow> list_all isIPChar s"
  by (auto simp: parseIP_def parseIPv4_def split: list.splits if_splits
        dest: ipv4Fields_chars parseIPv6_chars)

lemma isIPChar_safe:
  "isIPChar c \<Longrightarrow> \<not> isControlByte c \<and> c \<notin> set shellMetaChars
     \<and> c \<notin> {CHR ''@'', CHR ''['', CHR '']'', CHR ''/'', CHR '' '', CHR ''*'', CHR ''?'', CHR 0x25, CHR ''-''}"
  by (auto simp: isIPChar_def isHex_def isControlByte_def shellMetaChars_def Let_def)

lemma parseIP_nonempty: "parseIP s = Some ip \<Longrightarrow> s \<noteq> []"
  by (auto simp: parseIP_def)

end
