(* ===== verification/GoPath.thy ===== *)
theory GoPath
  imports GoText
begin

text \<open>
  \<open>filepath.IsAbs\<close> and \<open>filepath.Clean\<close> on Unix, as the Go standard library computes
  them: \<open>Clean\<close> is a single pass with an output buffer and a mark \<open>dotdot\<close> below which
  a parent reference may not backtrack.
\<close>

section \<open>Definitions\<close>

definition isAbs :: "string \<Rightarrow> bool" where
  "isAbs p = prefix ''/'' p"

abbreviation slash :: char where
  "slash \<equiv> CHR ''/''"

abbreviation dot :: char where
  "dot \<equiv> CHR ''.''"

text \<open>The write position after a backtrack: drop the last element and the separator before
  it, but nothing below the mark.\<close>

fun backtrack :: "nat \<Rightarrow> string \<Rightarrow> nat \<Rightarrow> nat" where
  "backtrack dotdot out 0 = 0"
| "backtrack dotdot out (Suc w) =
     (if dotdot < Suc w \<and> out ! (Suc w) \<noteq> slash then backtrack dotdot out w else Suc w)"

definition atElemEnd :: "string \<Rightarrow> bool" where
  "atElemEnd s = (case s of [] \<Rightarrow> True | c # _ \<Rightarrow> c = slash)"

function cleanLoop :: "bool \<Rightarrow> nat \<Rightarrow> string \<Rightarrow> string \<Rightarrow> string" where
  "cleanLoop rooted dotdot out s =
     (case s of
        [] \<Rightarrow> out
      | c # r \<Rightarrow>
          if c = slash then cleanLoop rooted dotdot out r
          else if c = dot \<and> atElemEnd r then cleanLoop rooted dotdot out r
          else if c = dot \<and> r \<noteq> [] \<and> hd r = dot \<and> atElemEnd (tl r) then
            (if dotdot < length out then
               cleanLoop rooted dotdot (take (backtrack dotdot out (length out - 1)) out) (tl r)
             else if \<not> rooted then
               (let out' = (if 0 < length out then out @ [slash] else out) @ ''..''
                in cleanLoop rooted (length out') out' (tl r))
             else cleanLoop rooted dotdot out (tl r))
          else
            (let sep = (if rooted \<and> length out \<noteq> 1 \<or> \<not> rooted \<and> length out \<noteq> 0 then [slash] else []);
                 e = takeWhile (\<lambda>x. x \<noteq> slash) s
             in cleanLoop rooted dotdot (out @ sep @ e) (dropWhile (\<lambda>x. x \<noteq> slash) s)))"
  by pat_completeness auto
termination
proof (relation "measure (\<lambda>(rooted, dotdot, out, s). length s)", goal_cases)
  case (7 rooted dotdot out s c r sep e)
  then show ?case by (simp add: less_Suc_eq_le length_dropWhile_le)
qed auto

declare cleanLoop.simps [simp del]

definition goClean :: "string \<Rightarrow> string" where
  "goClean p =
     (if p = [] then ''.''
      else (let rooted = (hd p = slash);
                out = (if rooted then cleanLoop True 1 ''/'' (tl p) else cleanLoop False 0 [] p)
            in if out = [] then ''.'' else out))"

section \<open>Absolute paths\<close>

lemma isAbs_Cons: "isAbs p \<longleftrightarrow> (\<exists>r. p = slash # r)"
  by (cases p) (auto simp: isAbs_def)

section \<open>Elements of a path\<close>

fun splitSlash :: "string \<Rightarrow> string list" where
  "splitSlash [] = [[]]"
| "splitSlash (c # cs) =
     (if c = slash then [] # splitSlash cs
      else (case splitSlash cs of [] \<Rightarrow> [[c]] | w # ws \<Rightarrow> (c # w) # ws))"

text \<open>The elements that count: neither empty nor a dot.\<close>

definition elems :: "string \<Rightarrow> string list" where
  "elems s = filter (\<lambda>e. e \<noteq> [] \<and> e \<noteq> ''.'') (splitSlash s)"

lemma splitSlash_nonempty [simp]: "splitSlash s \<noteq> []"
  by (induction s) (auto split: list.splits)

lemma splitSlash_word: "slash \<notin> set w \<Longrightarrow> splitSlash w = [w]"
  by (induction w) auto

lemma splitSlash_append: "slash \<notin> set w \<Longrightarrow> splitSlash (w @ slash # s) = w # splitSlash s"
  by (induction w) auto

lemma splitSlash_members: "e \<in> set (splitSlash s) \<Longrightarrow> slash \<notin> set e"
  by (induction s arbitrary: e) (auto split: if_splits list.splits)

lemma elems_Nil [simp]: "elems [] = []"
  by (simp add: elems_def)

lemma elems_slash [simp]: "elems (slash # s) = elems s"
  by (simp add: elems_def)

lemma elems_word:
  assumes "slash \<notin> set w" and "atElemEnd s"
  shows "elems (w @ s) = (if w = [] \<or> w = ''.'' then elems s else w # elems s)"
proof (cases s)
  case Nil
  with assms show ?thesis by (simp add: elems_def splitSlash_word)
next
  case (Cons c r)
  with assms have "c = slash" by (simp add: atElemEnd_def)
  with assms Cons show ?thesis by (simp add: elems_def splitSlash_append)
qed

lemma elems_members: "e \<in> set (elems s) \<Longrightarrow> e \<noteq> [] \<and> e \<noteq> ''.'' \<and> slash \<notin> set e"
  using splitSlash_members by (auto simp: elems_def)

section \<open>The reference: lexical normalisation\<close>

text \<open>
  A parent reference cancels the element before it; at the root it is dropped, and in a
  relative path with nothing left to cancel it stays.
\<close>

definition cleanStep :: "bool \<Rightarrow> string list \<Rightarrow> string \<Rightarrow> string list" where
  "cleanStep rooted st e =
     (if e \<noteq> ''..'' then st @ [e]
      else if st \<noteq> [] \<and> last st \<noteq> ''..'' then butlast st
      else if rooted then st
      else st @ [''..''])"

definition cleanElems :: "string \<Rightarrow> string list" where
  "cleanElems p = foldl (cleanStep (isAbs p)) [] (elems p)"

abbreviation joinSlash :: "string list \<Rightarrow> string" where
  "joinSlash \<equiv> joinWith ''/''"

definition cleanSpec :: "string \<Rightarrow> string" where
  "cleanSpec p =
     (if isAbs p then slash # joinSlash (cleanElems p)
      else if cleanElems p = [] then ''.''
      else joinSlash (cleanElems p))"

section \<open>The loop follows the reference\<close>

definition rendered :: "bool \<Rightarrow> string list \<Rightarrow> string" where
  "rendered rooted st = (if rooted then [slash] else []) @ joinSlash st"

text \<open>The parent references a relative path keeps at its head, then proper elements.\<close>

definition isProper :: "string \<Rightarrow> bool" where
  "isProper e \<longleftrightarrow> e \<noteq> [] \<and> e \<noteq> ''.'' \<and> e \<noteq> ''..'' \<and> slash \<notin> set e"

definition kept :: "nat \<Rightarrow> string list" where
  "kept k = replicate k ''..''"

lemma backtrack_to:
  assumes "b \<le> w" and "\<forall>i. b < i \<and> i \<le> w \<longrightarrow> out ! i \<noteq> slash" and "d \<le> b" and "b = d \<or> out ! b = slash"
  shows "backtrack d out w = b"
  using assms
proof (induction w)
  case 0
  then show ?case by simp
next
  case (Suc w)
  show ?case
  proof (cases "b = Suc w")
    case True
    with Suc.prems show ?thesis by auto
  next
    case False
    with Suc.prems have "out ! Suc w \<noteq> slash" "d < Suc w" "b \<le> w" by auto
    with Suc show ?thesis by simp
  qed
qed

text \<open>A backtrack removes the last element and its separator.\<close>

lemma backtrack_elem:
  assumes "e \<noteq> []" and "slash \<notin> set e" and "d \<le> length base"
    and "sep = [slash] \<or> sep = [] \<and> d = length base" and "out = base @ sep @ e"
  shows "take (backtrack d out (length out - 1)) out = base"
proof -
  have le: "length base \<le> length out - 1" using assms(1,5) by (cases e) auto
  have "out ! i \<noteq> slash" if "length base < i" "i \<le> length out - 1" for i
  proof -
    have "out ! i = e ! (i - length (base @ sep))" "i - length (base @ sep) < length e"
      using that assms(1,4,5) by (auto simp: nth_append)
    with assms(2) show ?thesis by (metis nth_mem)
  qed
  moreover have "length base = d \<or> out ! length base = slash"
    using assms(4,5) by (auto simp: nth_append)
  ultimately have "backtrack d out (length out - 1) = length base"
    using le assms(3) by (intro backtrack_to) auto
  with assms(5) show ?thesis by simp
qed

definition cleanInv :: "bool \<Rightarrow> nat \<Rightarrow> nat \<Rightarrow> string list \<Rightarrow> string \<Rightarrow> bool" where
  "cleanInv rooted d k ns out \<longleftrightarrow>
     (rooted \<longrightarrow> k = 0) \<and> (\<forall>e \<in> set ns. isProper e)
     \<and> out = rendered rooted (kept k @ ns) \<and> d = length (rendered rooted (kept k))"

lemma rendered_snoc: "rendered r (st @ [e]) = rendered r st @ (if st = [] then [] else [slash]) @ e"
  by (simp add: rendered_def joinWith_snoc)

lemma cleanInv_mark:
  assumes "cleanInv rooted d k ns out"
  shows "d \<le> length out" and "d < length out \<longleftrightarrow> ns \<noteq> []"
proof -
  have "length (rendered rooted (kept k)) \<le> length (rendered rooted (kept k @ ns))
      \<and> (length (rendered rooted (kept k)) < length (rendered rooted (kept k @ ns)) \<longleftrightarrow> ns \<noteq> [])"
    if "\<forall>e \<in> set ns. isProper e"
    using that
  proof (induction ns rule: rev_induct)
    case (snoc e ns)
    then have "0 < length e" by (simp add: isProper_def)
    with snoc rendered_snoc [of rooted "kept k @ ns" e] show ?case by auto
  qed simp
  with assms show "d \<le> length out" "d < length out \<longleftrightarrow> ns \<noteq> []" by (simp_all add: cleanInv_def)
qed

lemma cleanInv_empty:
  assumes "cleanInv rooted d k ns out"
  shows "(rooted \<and> length out \<noteq> 1 \<or> \<not> rooted \<and> length out \<noteq> 0) \<longleftrightarrow> kept k @ ns \<noteq> []"
proof -
  have "\<forall>e \<in> set ns. isProper e" using assms unfolding cleanInv_def by blast
  moreover have "\<forall>e \<in> set (kept k). e = ''..''" by (simp add: kept_def)
  ultimately have "\<forall>e \<in> set (kept k @ ns). e \<noteq> []" by (auto simp: isProper_def)
  then have ne: "joinSlash (kept k @ ns) = [] \<longleftrightarrow> kept k @ ns = []"
    using joinWith_nonempty [of "kept k @ ns"] by (cases "kept k @ ns = []") simp_all
  have "length out = (if rooted then Suc 0 else 0) + length (joinSlash (kept k @ ns))"
    using assms by (simp add: cleanInv_def rendered_def)
  with ne show ?thesis by (cases rooted) (simp_all del: append_is_Nil_conv)
qed

lemma cleanInv_element:
  assumes "cleanInv rooted d k ns out" and "isProper e"
  shows "cleanInv rooted d k (ns @ [e])
    (out @ (if rooted \<and> length out \<noteq> 1 \<or> \<not> rooted \<and> length out \<noteq> 0 then [slash] else []) @ e)"
  using assms rendered_snoc [of rooted "kept k @ ns" e] unfolding cleanInv_empty [OF assms(1)]
  by (auto simp: cleanInv_def)

lemma cleanInv_parent:
  assumes "cleanInv rooted d k (ns @ [e]) out"
  shows "cleanInv rooted d k ns (take (backtrack d out (length out - 1)) out)"
proof -
  let ?base = "rendered rooted (kept k @ ns)"
  have inv: "cleanInv rooted d k ns ?base" and e: "isProper e" using assms by (auto simp: cleanInv_def)
  have out: "out = ?base @ (if kept k @ ns = [] then [] else [slash]) @ e"
    using assms rendered_snoc [of rooted "kept k @ ns" e] by (simp add: cleanInv_def)
  have "d = length ?base" if "kept k @ ns = []" using inv that by (simp add: cleanInv_def)
  with e out cleanInv_mark(1) [OF inv] have "take (backtrack d out (length out - 1)) out = ?base"
    by (intro backtrack_elem [where sep = "if kept k @ ns = [] then [] else [slash]"]) (auto simp: isProper_def)
  with inv show ?thesis by simp
qed

lemma kept_Suc: "kept (Suc k) = kept k @ [''..'']"
  by (simp add: kept_def replicate_append_same)

lemma cleanInv_keep:
  assumes "cleanInv False d k [] out"
  shows "cleanInv False (length ((if 0 < length out then out @ [slash] else out) @ ''..'')) (Suc k) []
    ((if 0 < length out then out @ [slash] else out) @ ''..'')"
proof -
  have "0 < length out \<longleftrightarrow> kept k \<noteq> []" using cleanInv_empty [OF assms] by simp
  with assms rendered_snoc [of False "kept k" "''..''"] show ?thesis
    by (simp add: cleanInv_def kept_Suc)
qed

text \<open>What one step of the reference does to a stack of that form.\<close>

lemma cleanStep_kept:
  assumes "cleanInv rooted d k ns out"
  shows "isProper e \<Longrightarrow> cleanStep rooted (kept k @ ns) e = kept k @ ns @ [e]"
    and "ns = ms @ [e] \<Longrightarrow> cleanStep rooted (kept k @ ns) ''..'' = kept k @ ms"
    and "ns = [] \<Longrightarrow> cleanStep rooted (kept k @ ns) ''..'' = (if rooted then kept k else kept (Suc k))"
proof -
  have k: "kept k = [] \<or> last (kept k) = ''..''" by (cases k) (simp_all add: kept_def)
  show "isProper e \<Longrightarrow> cleanStep rooted (kept k @ ns) e = kept k @ ns @ [e]"
    by (simp add: cleanStep_def isProper_def)
  show "ns = ms @ [e] \<Longrightarrow> cleanStep rooted (kept k @ ns) ''..'' = kept k @ ms"
    using assms by (simp add: cleanInv_def cleanStep_def isProper_def butlast_append)
  show "ns = [] \<Longrightarrow> cleanStep rooted (kept k @ ns) ''..'' = (if rooted then kept k else kept (Suc k))"
    using k by (auto simp: cleanStep_def kept_Suc)
qed

lemma element_at:
  assumes "s = c # r" and "c \<noteq> slash"
  defines "e \<equiv> takeWhile (\<lambda>x. x \<noteq> slash) s" and "t \<equiv> dropWhile (\<lambda>x. x \<noteq> slash) s"
  shows "s = e @ t" "e \<noteq> []" "slash \<notin> set e" "atElemEnd t" "length t < length s"
proof -
  show "s = e @ t" by (simp add: e_def t_def)
  show "e \<noteq> []" using assms(1,2) by (simp add: e_def)
  show "slash \<notin> set e" by (auto simp: e_def dest: set_takeWhileD)
  from \<open>s = e @ t\<close> \<open>e \<noteq> []\<close> show "length t < length s" by (cases e) auto
  show "atElemEnd t"
  proof (cases t)
    case (Cons a u)
    then have "a = slash" using hd_dropWhile [of "\<lambda>x. x \<noteq> slash" s] by (fastforce simp: t_def)
    with Cons show ?thesis by (simp add: atElemEnd_def)
  qed (simp add: atElemEnd_def)
qed

lemma element_dots:
  assumes "s = c # r" and "c \<noteq> slash"
  defines "e \<equiv> takeWhile (\<lambda>x. x \<noteq> slash) s" and "t \<equiv> dropWhile (\<lambda>x. x \<noteq> slash) s"
  shows "c = dot \<and> atElemEnd r \<longleftrightarrow> e = ''.''" "e = ''.'' \<Longrightarrow> t = r"
    "c = dot \<and> r \<noteq> [] \<and> hd r = dot \<and> atElemEnd (tl r) \<longleftrightarrow> e = ''..''" "e = ''..'' \<Longrightarrow> t = tl r"
proof -
  have hd: "takeWhile (\<lambda>x. x \<noteq> slash) u = [] \<longleftrightarrow> atElemEnd u" for u :: string
    by (cases u) (auto simp: atElemEnd_def)
  have e: "e = c # takeWhile (\<lambda>x. x \<noteq> slash) r" "t = dropWhile (\<lambda>x. x \<noteq> slash) r"
    using assms(1,2) by (simp_all add: e_def t_def)
  show "c = dot \<and> atElemEnd r \<longleftrightarrow> e = ''.''" using hd [of r] by (auto simp: e)
  have stop: "dropWhile (\<lambda>x. x \<noteq> slash) u = u" if "takeWhile (\<lambda>x. x \<noteq> slash) u = []" for u :: string
    using that by (metis append_Nil takeWhile_dropWhile_id)
  show "e = ''.'' \<Longrightarrow> t = r" using stop [of r] by (simp add: e)
  have "c = dot \<and> r \<noteq> [] \<and> hd r = dot \<and> atElemEnd (tl r) \<longleftrightarrow> c = dot \<and> takeWhile (\<lambda>x. x \<noteq> slash) r = ''.''"
    using hd [of "tl r"] by (cases r) auto
  then show "c = dot \<and> r \<noteq> [] \<and> hd r = dot \<and> atElemEnd (tl r) \<longleftrightarrow> e = ''..''" by (auto simp: e)
  show "e = ''..'' \<Longrightarrow> t = tl r" using stop [of "tl r"] by (cases r) (auto simp: e split: if_splits)
qed

text \<open>One round of the loop, by the element it meets.\<close>

lemma cleanLoop_slash: "cleanLoop rooted d out (slash # r) = cleanLoop rooted d out r"
  by (simp add: cleanLoop.simps [of rooted d out "slash # r"])

lemma cleanLoop_dot: "atElemEnd t \<Longrightarrow> cleanLoop rooted d out (dot # t) = cleanLoop rooted d out t"
  by (simp add: cleanLoop.simps [of rooted d out "dot # t"])

lemma cleanLoop_parent:
  assumes "atElemEnd t"
  shows "cleanLoop rooted d out (''..'' @ t) =
    (if d < length out then cleanLoop rooted d (take (backtrack d out (length out - 1)) out) t
     else if \<not> rooted
     then cleanLoop rooted (length ((if 0 < length out then out @ [slash] else out) @ ''..''))
            ((if 0 < length out then out @ [slash] else out) @ ''..'') t
     else cleanLoop rooted d out t)"
proof -
  have "\<not> atElemEnd (dot # t)" by (simp add: atElemEnd_def)
  with assms show ?thesis by (simp add: cleanLoop.simps [of rooted d out "dot # dot # t"] Let_def)
qed

lemma cleanLoop_name:
  assumes "isProper e" and "s = e @ t" and "atElemEnd t"
    and split: "takeWhile (\<lambda>x. x \<noteq> slash) s = e" "dropWhile (\<lambda>x. x \<noteq> slash) s = t"
  shows "cleanLoop rooted d out s = cleanLoop rooted d
    (out @ (if rooted \<and> length out \<noteq> 1 \<or> \<not> rooted \<and> length out \<noteq> 0 then [slash] else []) @ e) t"
proof -
  from assms(1,2) obtain c r where s: "s = c # r" "c \<noteq> slash" by (cases e) (auto simp: isProper_def)
  have nd: "\<not> (c = dot \<and> atElemEnd r)" "\<not> (c = dot \<and> r \<noteq> [] \<and> hd r = dot \<and> atElemEnd (tl r))"
    using element_dots(1,3) [OF s] assms(1) split(1) by (auto simp: isProper_def)
  show ?thesis
    unfolding split [symmetric]
    by (subst cleanLoop.simps) (simp only: s(1) list.case s(2) nd if_False Let_def)
qed

lemma cleanLoop_parent_spec:
  assumes "atElemEnd t" and inv: "cleanInv rooted d k ns out"
    and IH: "\<And>d k ns out. cleanInv rooted d k ns out \<Longrightarrow>
      cleanLoop rooted d out t = rendered rooted (foldl (cleanStep rooted) (kept k @ ns) es)"
  shows "cleanLoop rooted d out (''..'' @ t) =
    rendered rooted (foldl (cleanStep rooted) (cleanStep rooted (kept k @ ns) ''..'') es)"
proof (cases ns rule: rev_cases)
  case Nil
  then have nd: "\<not> d < length out" using cleanInv_mark(2) [OF inv] by simp
  show ?thesis
  proof (cases rooted)
    case True
    with IH [OF inv] nd cleanStep_kept(3) [OF inv Nil] Nil cleanLoop_parent [OF assms(1), of rooted d out]
    show ?thesis by simp
  next
    case False
    with inv Nil have "cleanInv False d k [] out" by simp
    with IH [of _ "Suc k" "[]"] cleanInv_keep False nd cleanStep_kept(3) [OF inv Nil] Nil
      cleanLoop_parent [OF assms(1), of rooted d out]
    show ?thesis by simp
  qed
next
  case (snoc ms e)
  then have "d < length out" using cleanInv_mark(2) [OF inv] by simp
  moreover have "cleanInv rooted d k ms (take (backtrack d out (length out - 1)) out)"
    using inv cleanInv_parent unfolding snoc by blast
  ultimately show ?thesis
    using IH cleanStep_kept(2) [OF inv snoc] cleanLoop_parent [OF assms(1), of rooted d out] by simp
qed

lemma cleanLoop_spec:
  "cleanInv rooted d k ns out \<Longrightarrow>
   cleanLoop rooted d out s = rendered rooted (foldl (cleanStep rooted) (kept k @ ns) (elems s))"
proof (induction "length s" arbitrary: d k ns out s rule: less_induct)
  case less
  note IH = less.hyps and inv = less.prems
  define e t where "e = takeWhile (\<lambda>x. x \<noteq> slash) s" and "t = dropWhile (\<lambda>x. x \<noteq> slash) s"
  consider (nil) "s = []" | (sl) r where "s = slash # r" | (el) c r where "s = c # r" "c \<noteq> slash"
    by (cases s) auto
  then show ?case
  proof cases
    case nil
    with inv show ?thesis by (simp add: cleanLoop.simps [of rooted d out "[]"]) (simp add: cleanInv_def)
  next
    case sl
    with IH [OF _ inv, of r] show ?thesis by (simp add: cleanLoop_slash)
  next
    case el
    note at = element_at [OF el, folded e_def t_def]
    have els: "elems s = (if e = ''.'' then elems t else e # elems t)"
      using elems_word [OF at(3,4)] at(1,2) by simp
    consider (one) "e = ''.''" | (two) "e = ''..''" | (name) "isProper e"
      using at by (auto simp: isProper_def)
    then show ?thesis
    proof cases
      case one
      with at IH [OF at(5) inv] els show ?thesis by (simp add: cleanLoop_dot)
    next
      case two
      with at(1) have step: "cleanLoop rooted d out s = cleanLoop rooted d out (''..'' @ t)" by simp
      from cleanLoop_parent_spec [OF at(4) inv IH [OF at(5)]] two els step show ?thesis by simp
    next
      case name
      note step = cleanLoop_name [OF name at(1,4) e_def [symmetric] t_def [symmetric], of rooted d out]
      have "e \<noteq> ''.''" using name by (simp add: isProper_def)
      with IH [OF at(5) cleanInv_element [OF inv name]] els cleanStep_kept(1) [OF inv name] step
      show ?thesis by simp
    qed
  qed
qed

lemma foldl_cleanStep_members:
  "e \<in> set (foldl (cleanStep rooted) st es) \<Longrightarrow> e \<in> set st \<union> set es"
proof (induction es arbitrary: st)
  case (Cons x es)
  have "set (cleanStep rooted st x) \<subseteq> set st \<union> {x}"
    by (auto simp: cleanStep_def dest: in_set_butlastD)
  with Cons show ?case by fastforce
qed simp

lemma cleanElems_members: "e \<in> set (cleanElems p) \<Longrightarrow> e \<noteq> [] \<and> e \<noteq> ''.'' \<and> slash \<notin> set e"
  unfolding cleanElems_def by (drule foldl_cleanStep_members) (simp add: elems_members)

lemma goClean_spec: "goClean p = cleanSpec p"
proof -
  have "cleanInv True 1 0 [] ''/''" "cleanInv False 0 0 [] []"
    by (simp_all add: cleanInv_def rendered_def kept_def)
  note loops = this [THEN cleanLoop_spec, simplified]
  show ?thesis
  proof (cases p)
    case Nil
    then show ?thesis by (simp add: goClean_def cleanSpec_def cleanElems_def isAbs_def)
  next
    case (Cons c r)
    have join: "joinSlash els = [] \<longleftrightarrow> els = []" if "els = cleanElems p" for els
      using joinWith_nonempty [of els] that cleanElems_members by auto
    show ?thesis
    proof (cases "c = slash")
      case True
      with Cons show ?thesis
        by (simp add: goClean_def cleanSpec_def cleanElems_def isAbs_def loops rendered_def kept_def Let_def)
    next
      case False
      with Cons join show ?thesis
        by (simp add: goClean_def cleanSpec_def cleanElems_def isAbs_def loops rendered_def kept_def Let_def)
    qed
  qed
qed

section \<open>Cleaned absolute paths\<close>

lemma elems_joinSlash:
  "\<forall>e \<in> set es. e \<noteq> [] \<and> e \<noteq> ''.'' \<and> slash \<notin> set e \<Longrightarrow> elems (joinSlash es) = es"
proof (induction "''/''" es rule: joinWith.induct)
  case (2 x)
  then show ?case using elems_word [of x "[]"] by (simp add: atElemEnd_def)
next
  case (3 x y r)
  then show ?case using elems_word [of x "slash # joinSlash (y # r)"] by (simp add: atElemEnd_def)
qed simp

lemma foldl_cleanStep_names: "''..'' \<notin> set es \<Longrightarrow> foldl (cleanStep rooted) st es = st @ es"
  by (induction es arbitrary: st) (auto simp: cleanStep_def)

lemma foldl_cleanStep_rooted: "''..'' \<notin> set st \<Longrightarrow> ''..'' \<notin> set (foldl (cleanStep True) st es)"
proof (induction es arbitrary: st)
  case (Cons x es)
  have "''..'' \<notin> set (cleanStep True st x)"
    using Cons.prems by (auto simp: cleanStep_def dest: in_set_butlastD)
  with Cons.IH show ?case by simp
qed simp

lemma cleanElems_abs: "isAbs p \<Longrightarrow> e \<in> set (cleanElems p) \<Longrightarrow> isProper e"
  using cleanElems_members [of e p] foldl_cleanStep_rooted [of "[]" "elems p"]
  by (auto simp: isProper_def cleanElems_def)

lemma goClean_abs: "isAbs p \<Longrightarrow> goClean p = slash # joinSlash (cleanElems p)"
  by (simp add: goClean_spec cleanSpec_def)

lemma cleanElems_goClean: "isAbs p \<Longrightarrow> cleanElems (goClean p) = cleanElems p"
proof -
  assume abs: "isAbs p"
  have pr: "\<forall>e \<in> set (cleanElems p). isProper e" using cleanElems_abs [OF abs] by blast
  have "elems (goClean p) = cleanElems p"
    using elems_joinSlash [of "cleanElems p"] pr by (simp add: goClean_abs [OF abs] isProper_def)
  moreover have "''..'' \<notin> set (cleanElems p)" using pr by (auto simp: isProper_def)
  ultimately show ?thesis unfolding cleanElems_def [of "goClean p"] by (simp add: foldl_cleanStep_names)
qed

lemma goClean_eq_iff:
  "isAbs p \<Longrightarrow> isAbs q \<Longrightarrow> goClean p = goClean q \<longleftrightarrow> cleanElems p = cleanElems q"
  using cleanElems_goClean goClean_abs by metis

lemma isAbs_goClean: "isAbs p \<Longrightarrow> isAbs (goClean p)"
  by (simp add: goClean_abs isAbs_def)

end
