(* ===== verification/Files.thy ===== *)
theory Files
  imports GoText
begin

text \<open>
  What the program reads from the file system: regular files behind \<open>openRegular\<close>
  (config.go), the capped config read, the emptiness test of a source directory and the
  \<open>known_hosts\<close> classification (sync.go).

  The operating system is an input. Opening a path gives an error or a file: what
  \<open>Stat\<close> answers, whether the mode is regular, the bytes a reader gets, and the error
  that ends the bytes instead of end-of-file, if any. Opening a directory gives the names
  \<open>Readdirnames\<close> delivers and the error that ends them, if any. Closing a handle changes
  nothing the program reads and is not modelled.
\<close>

section \<open>Regular files\<close>

record ofile =
  of_stat :: "goerr option"
  of_regular :: bool
  of_data :: string
  of_err :: "goerr option"

type_synonym opener = "string \<Rightarrow> goerr + ofile"

definition openRegular :: "opener \<Rightarrow> string \<Rightarrow> goerr + ofile" where
  "openRegular fs path =
     (case fs path of
        Inl e \<Rightarrow> Inl e
      | Inr f \<Rightarrow>
          (case of_stat f of
             Some e \<Rightarrow> Inl e
           | None \<Rightarrow> if \<not> of_regular f then Inl ErrNotRegular else Inr f))"

definition checkReadable :: "opener \<Rightarrow> string \<Rightarrow> goerr option" where
  "checkReadable fs path =
     (case openRegular fs path of Inl e \<Rightarrow> Some e | Inr _ \<Rightarrow> None)"

definition configCapBytes :: nat where
  "configCapBytes = 1048576"

text \<open>\<open>io.ReadAll(io.LimitReader(f, n))\<close>: the reader stops at \<open>n\<close> bytes before it can
  meet an error that comes later.\<close>

definition readLimited :: "ofile \<Rightarrow> nat \<Rightarrow> goerr + string" where
  "readLimited f n =
     (if n \<le> length (of_data f) then Inr (take n (of_data f))
      else (case of_err f of Some e \<Rightarrow> Inl e | None \<Rightarrow> Inr (of_data f)))"

definition readCappedConfig :: "opener \<Rightarrow> string \<Rightarrow> goerr + string" where
  "readCappedConfig fs path =
     (case openRegular fs path of
        Inl e \<Rightarrow> Inl e
      | Inr f \<Rightarrow>
          (case readLimited f (configCapBytes + 1) of
             Inl e \<Rightarrow> Inl e
           | Inr data \<Rightarrow>
               if configCapBytes < length data then Inl (ErrOther ''config exceeds 1048576 bytes'')
               else Inr data))"

section \<open>Source directories\<close>

record odir =
  od_names :: "string list"
  od_err :: "goerr option"

type_synonym dirOpener = "string \<Rightarrow> goerr + odir"

definition globalExcludes :: "string list" where
  "globalExcludes = [''.stfolder'', ''.stversions'', ''.DS_Store'', ''Thumbs.db'']"

text \<open>
  \<open>Readdirnames(n)\<close> on the names not yet delivered: at most \<open>n\<close> names; the error that
  ends the directory comes with the last names if there is one, and end-of-file comes with
  no names.
\<close>

definition readdirnames :: "nat \<Rightarrow> string list \<Rightarrow> goerr option \<Rightarrow> string list \<times> goerr option \<times> string list" where
  "readdirnames n rest err =
     (if n \<le> length rest then (take n rest, None, drop n rest)
      else if rest = [] then ([], Some (case err of None \<Rightarrow> ErrEOF | Some e \<Rightarrow> e), [])
      else (rest, err, []))"

text \<open>The read loop of \<open>sourceIsEmpty\<close>, with batches of \<open>Suc k\<close> names.\<close>

function emptyLoop :: "nat \<Rightarrow> string list \<Rightarrow> goerr option \<Rightarrow> goerr + bool" where
  "emptyLoop k rest err =
     (case readdirnames (Suc k) rest err of
        (names, rerr, rest') \<Rightarrow>
          if list_ex (\<lambda>n. n \<notin> set globalExcludes) names then Inr False
          else if errIsOpt rerr ErrEOF then Inr True
          else (case rerr of Some e \<Rightarrow> Inl e | None \<Rightarrow> emptyLoop k rest' err))"
  by pat_completeness auto
termination
  by (relation "measure (\<lambda>(k, rest, err). length rest)")
     (auto simp: readdirnames_def split: if_splits)

declare emptyLoop.simps [simp del]

definition sourceIsEmpty :: "dirOpener \<Rightarrow> string \<Rightarrow> goerr + bool" where
  "sourceIsEmpty ds path =
     (case ds path of Inl e \<Rightarrow> Inl e | Inr d \<Rightarrow> emptyLoop 255 (od_names d) (od_err d))"

section \<open>known_hosts\<close>

datatype hostKeyMode = HostKeyAcceptNew | HostKeyStrict

fun hostKeyModeString :: "hostKeyMode \<Rightarrow> string" where
  "hostKeyModeString HostKeyStrict = ''strict''"
| "hostKeyModeString HostKeyAcceptNew = ''accept-new''"

text \<open>The rune loop of \<open>classifyKnownHosts\<close>: whether an entry is met before the runes
  end.\<close>

fun knownHostsScan :: "bool \<Rightarrow> nat list \<Rightarrow> bool" where
  "knownHostsScan inComment [] = False"
| "knownHostsScan inComment (r # rs) =
     (if r = 10 then knownHostsScan False rs
      else if inComment \<or> isSpaceRune r then knownHostsScan inComment rs
      else if r = 35 then knownHostsScan True rs
      else True)"

definition classifyKnownHosts :: "opener \<Rightarrow> string \<Rightarrow> goerr + hostKeyMode" where
  "classifyKnownHosts fs path =
     (case openRegular fs path of
        Inl e \<Rightarrow>
          if errIs e ErrNotExist then Inr HostKeyAcceptNew
          else if errIs e ErrNotRegular then Inl (ErrWrap (''known_hosts is '' @ path) [e])
          else Inl (ErrWrap ''known_hosts'' [e])
      | Inr f \<Rightarrow>
          if knownHostsScan False (goRunes (of_data f)) then Inr HostKeyStrict
          else (case of_err f of
                  None \<Rightarrow> Inl (ErrOther (''known_hosts has no entries: '' @ path))
                | Some e \<Rightarrow>
                    if errIs e ErrEOF then Inl (ErrOther (''known_hosts has no entries: '' @ path))
                    else Inl (ErrWrap ''known_hosts'' [e])))"

section \<open>Specification of the reads\<close>

definition regularAt :: "opener \<Rightarrow> string \<Rightarrow> ofile \<Rightarrow> bool" where
  "regularAt fs path f = (fs path = Inr f \<and> of_stat f = None \<and> of_regular f)"

lemma openRegular_iff [check_iff]: "openRegular fs path = Inr f \<longleftrightarrow> regularAt fs path f"
  by (auto simp: openRegular_def regularAt_def split: sum.splits option.splits)

lemma checkReadable_iff [check_iff]:
  "checkReadable fs path = None \<longleftrightarrow> (\<exists>f. regularAt fs path f)"
  using openRegular_iff [of fs path] by (auto simp: checkReadable_def split: sum.splits)

interpretation readable: validator "checkReadable fs" "\<lambda>path. \<exists>f. regularAt fs path f" for fs
  by unfold_locales (rule checkReadable_iff)

text \<open>The capped read returns the whole document or refuses it; it never truncates.\<close>

lemma readCapped_whole:
  "readCappedConfig fs path = Inr data \<longleftrightarrow>
     (\<exists>f. regularAt fs path f \<and> of_err f = None \<and> data = of_data f \<and> length data \<le> configCapBytes)"
proof (cases "openRegular fs path")
  case (Inl e)
  then show ?thesis using openRegular_iff [of fs path] by (auto simp: readCappedConfig_def)
next
  case (Inr f)
  have f: "regularAt fs path f" using Inr by (simp add: openRegular_iff)
  have uniq: "regularAt fs path g \<longleftrightarrow> g = f" for g using f by (auto simp: regularAt_def)
  have "readCappedConfig fs path = Inr data \<longleftrightarrow>
      readLimited f (configCapBytes + 1) = Inr data \<and> length data \<le> configCapBytes"
    by (auto simp: readCappedConfig_def Inr split: sum.splits)
  also have "\<dots> \<longleftrightarrow> of_err f = None \<and> data = of_data f \<and> length data \<le> configCapBytes"
    by (cases "configCapBytes + 1 \<le> length (of_data f)")
       (auto simp: readLimited_def min_def split: option.splits if_splits)
  finally show ?thesis by (simp add: uniq)
qed

text \<open>An emptiness verdict depends on the names and the final error, not on the batches.\<close>

definition emptySpec :: "string list \<Rightarrow> goerr option \<Rightarrow> goerr + bool" where
  "emptySpec names err =
     (if list_ex (\<lambda>n. n \<notin> set globalExcludes) names then Inr False
      else (case err of None \<Rightarrow> Inr True | Some e \<Rightarrow> if errIs e ErrEOF then Inr True else Inl e))"

lemma emptyLoop_Nil: "emptyLoop k [] err = emptySpec [] err"
  by (simp add: emptyLoop.simps [of k "[]" err] readdirnames_def emptySpec_def split: option.split)

lemma emptyLoop_short:
  assumes "length rest < Suc k" and "rest \<noteq> []"
  shows "emptyLoop k rest err = emptySpec rest err"
proof -
  have rd: "readdirnames (Suc k) rest err = (rest, err, [])"
    using assms by (simp add: readdirnames_def)
  show ?thesis
    by (simp add: emptyLoop.simps [of k rest err] rd emptyLoop_Nil emptySpec_def split: option.split)
qed

lemma emptyLoop_spec: "emptyLoop k rest err = emptySpec rest err"
proof (induction k rest err rule: emptyLoop.induct)
  case (1 k rest err)
  show ?case
  proof (cases "Suc k \<le> length rest")
    case True
    let ?P = "\<lambda>n. n \<notin> set globalExcludes"
    have rd: "readdirnames (Suc k) rest err = (take (Suc k) rest, None, drop (Suc k) rest)"
      using True by (simp add: readdirnames_def)
    have ex: "list_ex ?P rest \<longleftrightarrow> list_ex ?P (take (Suc k) rest) \<or> list_ex ?P (drop (Suc k) rest)"
      by (metis append_take_drop_id list_ex_append)
    show ?thesis
    proof (cases "list_ex ?P (take (Suc k) rest)")
      case True
      with ex show ?thesis by (simp add: emptyLoop.simps [of k rest err] rd emptySpec_def)
    next
      case False
      from "1.IH" [OF rd [symmetric] refl _ _ ] False
      have "emptyLoop k (drop (Suc k) rest) err = emptySpec (drop (Suc k) rest) err" by simp
      with False ex show ?thesis by (simp add: emptyLoop.simps [of k rest err] rd emptySpec_def)
    qed
  next
    case False
    then show ?thesis
      using emptyLoop_short [of rest k err] by (cases "rest = []") (auto simp: emptyLoop_Nil)
  qed
qed

lemma sourceIsEmpty_spec:
  "sourceIsEmpty ds path = (case ds path of Inl e \<Rightarrow> Inl e | Inr d \<Rightarrow> emptySpec (od_names d) (od_err d))"
  unfolding sourceIsEmpty_def emptyLoop_spec ..

text \<open>Lines of a rune sequence, and the lines that pin a host: something other than blanks
  or a comment.\<close>

fun runeLines :: "nat list \<Rightarrow> nat list list" where
  "runeLines [] = [[]]"
| "runeLines (r # rs) =
     (if r = 10 then [] # runeLines rs
      else (case runeLines rs of [] \<Rightarrow> [[r]] | l # ls \<Rightarrow> (r # l) # ls))"

definition isEntryLine :: "nat list \<Rightarrow> bool" where
  "isEntryLine l = (case dropWhile isSpaceRune l of [] \<Rightarrow> False | r # _ \<Rightarrow> r \<noteq> 35)"

lemma runeLines_nonempty [simp]: "runeLines rs \<noteq> []"
  by (induction rs) (auto split: list.splits)

lemma knownHostsScan_lines:
  "knownHostsScan inC rs \<longleftrightarrow>
     (if inC then list_ex isEntryLine (tl (runeLines rs)) else list_ex isEntryLine (runeLines rs))"
proof (induction rs arbitrary: inC)
  case Nil
  then show ?case by (simp add: isEntryLine_def)
next
  case (Cons r rs)
  obtain l ls where rl: "runeLines rs = l # ls" by (cases "runeLines rs") simp_all
  have "isEntryLine (r # l) \<longleftrightarrow> (if isSpaceRune r then isEntryLine l else r \<noteq> 35)"
    by (simp add: isEntryLine_def)
  then show ?case by (auto simp: Cons.IH rl isEntryLine_def [of "[]"])
qed

section \<open>Properties\<close>

text \<open>The capped read of the job file returns the complete bytes of a
  regular file of at most 1 MiB, and nothing else: a longer file is refused, never
  truncated.\<close>

lemma readCappedConfig_whole_or_refused:
  "(readCappedConfig fs path = Inr data \<longleftrightarrow>
      (\<exists>f. regularAt fs path f \<and> of_err f = None \<and> of_data f = data \<and> length data \<le> configCapBytes))
   \<and> (\<forall>f. regularAt fs path f \<and> configCapBytes < length (of_data f)
        \<longrightarrow> (\<exists>e. readCappedConfig fs path = Inl e))"
proof
  show "readCappedConfig fs path = Inr data \<longleftrightarrow>
      (\<exists>f. regularAt fs path f \<and> of_err f = None \<and> of_data f = data \<and> length data \<le> configCapBytes)"
    unfolding readCapped_whole by auto
  show "\<forall>f. regularAt fs path f \<and> configCapBytes < length (of_data f) \<longrightarrow> (\<exists>e. readCappedConfig fs path = Inl e)"
  proof (intro allI impI)
    fix f assume f: "regularAt fs path f \<and> configCapBytes < length (of_data f)"
    show "\<exists>e. readCappedConfig fs path = Inl e"
    proof (cases "readCappedConfig fs path")
      case (Inr d)
      then obtain g where "regularAt fs path g" "length (of_data g) \<le> configCapBytes"
        unfolding readCapped_whole by blast
      with f show ?thesis by (auto simp: regularAt_def)
    qed simp
  qed
qed

definition sampleFile :: "string \<Rightarrow> ofile" where
  "sampleFile data = \<lparr>of_stat = None, of_regular = True, of_data = data, of_err = None\<rparr>"

text \<open>C31 (equivalence): the batched emptiness test of a source directory terminates and
  answers by the whole listing: not empty as soon as some name is not one of the ignored
  ones, empty only when every name was read and is ignored; a read error before that is
  reported.\<close>

theorem sourceIsEmpty_decides:
  "sourceIsEmpty ds path =
     (case ds path of
        Inl e \<Rightarrow> Inl e
      | Inr d \<Rightarrow>
          if \<exists>n \<in> set (od_names d). n \<notin> set globalExcludes then Inr False
          else (case od_err d of
                  None \<Rightarrow> Inr True
                | Some e \<Rightarrow> if errIs e ErrEOF then Inr True else Inl e))"
  by (simp add: sourceIsEmpty_spec emptySpec_def list_ex_iff split: sum.split)

text \<open>C30 (functional): the ssh host-key posture. Strict checking exactly when the file is
  regular and has a line that is neither blank nor a comment; accept-new exactly when no
  file exists; every other case (not regular, no entries, unreadable) is an error, never a
  silent downgrade.\<close>

theorem classifyKnownHosts_posture:
  "(classifyKnownHosts fs path = Inr HostKeyStrict \<longleftrightarrow>
      (\<exists>f. regularAt fs path f \<and> list_ex isEntryLine (runeLines (goRunes (of_data f)))))
   \<and> (classifyKnownHosts fs path = Inr HostKeyAcceptNew \<longleftrightarrow>
      (\<exists>e. openRegular fs path = Inl e \<and> errIs e ErrNotExist))"
proof (cases "openRegular fs path")
  case (Inl e)
  then show ?thesis using openRegular_iff [of fs path] by (auto simp: classifyKnownHosts_def)
next
  case (Inr f)
  then have "regularAt fs path f" by (simp add: openRegular_iff)
  then have "regularAt fs path g \<longleftrightarrow> g = f" for g by (auto simp: regularAt_def)
  with Inr show ?thesis
    by (auto simp: classifyKnownHosts_def knownHostsScan_lines split: option.splits)
qed

end
