(* ===== verification/Config.thy ===== *)
theory Config
  imports NetIP GoPath Files
begin

text \<open>
  The job file's data model and its validation (config.go): the records \<open>job\<close> and
  \<open>config\<close>, \<open>(config).validate\<close>, \<open>(*job).validate\<close> with its field checks,
  \<open>splitRemoteHost\<close>, \<open>validateRemoteHost\<close> and \<open>remoteDest\<close>. An error message is a
  constructor that carries the values the message prints.
\<close>

section \<open>Data\<close>

record job =
  RemoteUID :: "32 word option"
  RemoteGID :: "32 word option"
  MaxDelete :: "int option"
  Name :: string
  Local :: string
  RemoteHost :: string
  RemotePath :: string
  SSHKey :: string
  Excludes :: "string list"
  Delete :: bool

record config =
  Jobs :: "job list"

datatype configErr =
    JobsEmpty
  | NameRequired nat
  | DuplicateName string
  | FieldRequired string string
  | NotAbsolute string string string
  | InvalidLogin string string
  | InvalidHost string string
  | ForbiddenRemotePath string
  | ControlInField string string
  | ControlInExclude string string
  | SpaceInRemotePath string string
  | GlobInRemotePath string string
  | SpaceInSSHKey string string
  | SSHKeyNotReadable string string goerr
  | NegativeMaxDelete string
  | UnsettableOwner string string "32 word"

section \<open>The remote host\<close>

definition splitRemoteHost :: "string \<Rightarrow> string \<times> string" where
  "splitRemoteHost raw =
     (let (user, host) = (case goCut raw (CHR ''@'') of
                            (u, h, found) \<Rightarrow> if found then (u, h) else ([], raw))
      in if 2 \<le> length host \<and> hd host = CHR ''['' \<and> last host = CHR '']''
         then (let inner = butlast (tl host)
               in if parseIP inner \<noteq> None then (user, inner) else (user, host))
         else (user, host))"

definition validateRemoteHost :: "job \<Rightarrow> configErr option" where
  "validateRemoteHost j =
     (let (user, host) = splitRemoteHost (RemoteHost j)
      in if CHR ''@'' \<in> set (RemoteHost j) \<and> \<not> userRE user
         then Some (InvalidLogin (Name j) (RemoteHost j))
         else if parseIP host \<noteq> None then None
         else if \<not> hostnameRE host then Some (InvalidHost (Name j) (RemoteHost j))
         else None)"

definition remoteDest :: "job \<Rightarrow> string" where
  "remoteDest j =
     (let (user, host) = splitRemoteHost (RemoteHost j);
          host1 = (if containsChar host (CHR '':'') then ''['' @ host @ '']'' else host);
          host2 = (if user \<noteq> [] then user @ ''@'' @ host1 else host1)
      in host2 @ '':'' @ RemotePath j @ ''/'')"

section \<open>Field checks\<close>

definition checkRequiredFields :: "job \<Rightarrow> configErr option" where
  "checkRequiredFields j =
     orElse (failIf (Local j = []) (FieldRequired (Name j) ''local''))
    (orElse (failIf (RemoteHost j = []) (FieldRequired (Name j) ''remote_host''))
    (orElse (failIf (RemotePath j = []) (FieldRequired (Name j) ''remote_path''))
            (failIf (SSHKey j = []) (FieldRequired (Name j) ''ssh_key''))))"

definition checkNoForbiddenChars :: "job \<Rightarrow> configErr option" where
  "checkNoForbiddenChars j =
     orElse (failIf (hasShellMeta (RemotePath j)) (ForbiddenRemotePath (Name j)))
    (orElse (firstErr (\<lambda>(key, val). failIf (hasControl val) (ControlInField (Name j) key))
               [(''name'', Name j), (''local'', Local j), (''ssh_key'', SSHKey j)])
    (orElse (firstErr (\<lambda>e. failIf (hasControl e) (ControlInExclude (Name j) e)) (Excludes j))
    (orElse (failIf (containsChar (RemotePath j) (CHR '' '')) (SpaceInRemotePath (Name j) (RemotePath j)))
    (orElse (failIf (containsAny (RemotePath j) ''*?[]'') (GlobInRemotePath (Name j) (RemotePath j)))
            (failIf (containsAny (SSHKey j) [CHR '' '', CHR 0x27, CHR 0x22])
               (SpaceInSSHKey (Name j) (SSHKey j)))))))"

definition maxUint32 :: "32 word" where
  "maxUint32 = 4294967295"

definition checkOwnership :: "job \<Rightarrow> configErr option" where
  "checkOwnership j =
     firstErr (\<lambda>(val, key).
         (case val of
            None \<Rightarrow> None
          | Some v \<Rightarrow> failIf (v = maxUint32) (UnsettableOwner (Name j) key v)))
       [(RemoteUID j, ''remote_uid''), (RemoteGID j, ''remote_gid'')]"

definition job_validate :: "opener \<Rightarrow> job \<Rightarrow> configErr option" where
  "job_validate fs j =
     orElse (checkRequiredFields j)
    (orElse (failIf (\<not> isAbs (Local j)) (NotAbsolute (Name j) ''local'' (Local j)))
    (orElse (failIf (\<not> isAbs (RemotePath j)) (NotAbsolute (Name j) ''remote_path'' (RemotePath j)))
    (orElse (validateRemoteHost j)
    (orElse (checkNoForbiddenChars j)
    (orElse (case checkReadable fs (SSHKey j) of
               None \<Rightarrow> None
             | Some err \<Rightarrow> Some (SSHKeyNotReadable (Name j) (SSHKey j) err))
    (orElse (case MaxDelete j of
               None \<Rightarrow> None
             | Some n \<Rightarrow> failIf (n < 0) (NegativeMaxDelete (Name j)))
            (checkOwnership j)))))))"

section \<open>The job list\<close>

text \<open>The loop of \<open>(config).validate\<close>: the index, the names seen, the jobs left.\<close>

fun validateLoop :: "opener \<Rightarrow> nat \<Rightarrow> (string \<rightharpoonup> bool) \<Rightarrow> job list \<Rightarrow> configErr option" where
  "validateLoop fs i seen [] = None"
| "validateLoop fs i seen (j # js) =
     (if Name j = [] then Some (NameRequired i)
      else if seen (Name j) = Some True then Some (DuplicateName (Name j))
      else orElse (job_validate fs j) (validateLoop fs (Suc i) (seen(Name j \<mapsto> True)) js))"

definition config_validate :: "opener \<Rightarrow> config \<Rightarrow> configErr option" where
  "config_validate fs c =
     (if length (Jobs c) = 0 then Some JobsEmpty
      else validateLoop fs 0 Map.empty (Jobs c))"

section \<open>The contract of a job\<close>

text \<open>The spellings of a host: an address literal, the same in brackets, or a DNS name.\<close>

definition isHostSpelling :: "string \<Rightarrow> bool" where
  "isHostSpelling h \<longleftrightarrow>
     parseIP h \<noteq> None \<or> isName h \<or> (\<exists>inner. h = CHR ''['' # inner @ '']'' \<and> parseIP inner \<noteq> None)"

definition validRemoteHost :: "string \<Rightarrow> bool" where
  "validRemoteHost r \<longleftrightarrow>
     isHostSpelling r \<or> (\<exists>user h. isName user \<and> isHostSpelling h \<and> r = user @ CHR ''@'' # h)"

definition printable :: "string \<Rightarrow> bool" where
  "printable s \<longleftrightarrow> (\<forall>c \<in> set s. \<not> isControlByte c)"

definition plainRemotePath :: "string \<Rightarrow> bool" where
  "plainRemotePath p \<longleftrightarrow>
     printable p \<and> (\<forall>c \<in> set p. c \<notin> set shellMetaChars \<and> c \<notin> set ''*?[] '')"

definition settableOwner :: "32 word option \<Rightarrow> bool" where
  "settableOwner v \<longleftrightarrow> v \<noteq> Some maxUint32"

definition validJob :: "opener \<Rightarrow> job \<Rightarrow> bool" where
  "validJob fs j \<longleftrightarrow>
     isAbs (Local j) \<and> printable (Local j)
     \<and> isAbs (RemotePath j) \<and> plainRemotePath (RemotePath j)
     \<and> validRemoteHost (RemoteHost j)
     \<and> SSHKey j \<noteq> [] \<and> printable (SSHKey j) \<and> set (SSHKey j) \<inter> {CHR '' '', CHR 0x27, CHR 0x22} = {}
     \<and> (\<exists>f. regularAt fs (SSHKey j) f)
     \<and> printable (Name j) \<and> (\<forall>e \<in> set (Excludes j). printable e)
     \<and> (\<forall>n. MaxDelete j = Some n \<longrightarrow> 0 \<le> n)
     \<and> settableOwner (RemoteUID j) \<and> settableOwner (RemoteGID j)"

definition validConfig :: "opener \<Rightarrow> config \<Rightarrow> bool" where
  "validConfig fs c \<longleftrightarrow>
     Jobs c \<noteq> [] \<and> distinct (map Name (Jobs c))
     \<and> (\<forall>j \<in> set (Jobs c). Name j \<noteq> [] \<and> validJob fs j)"

section \<open>Host lemmas\<close>

lemma hasControl_printable [check_iff]: "\<not> hasControl s \<longleftrightarrow> printable s"
  by (simp add: not_hasControl_bytes printable_def)

lemma parseIP_not_in: "parseIP h = Some ip \<Longrightarrow> c \<in> set h \<Longrightarrow> isIPChar c"
  using parseIP_chars by (auto simp: list_all_iff)

lemma isHostSpelling_no_at: "isHostSpelling h \<Longrightarrow> CHR ''@'' \<notin> set h"
  unfolding isHostSpelling_def
  using isNameChar_safe [of "CHR ''@''"] isIPChar_safe [of "CHR ''@''"]
  by (auto dest: parseIP_not_in isName_chars)

lemma isName_no_at: "isName u \<Longrightarrow> CHR ''@'' \<notin> set u"
  using isNameChar_safe by (auto dest: isName_chars)

definition unbracket :: "string \<Rightarrow> string" where
  "unbracket host =
     (if 2 \<le> length host \<and> hd host = CHR ''['' \<and> last host = CHR '']'' \<and> parseIP (butlast (tl host)) \<noteq> None
      then butlast (tl host) else host)"

lemma bracketed_eq:
  "2 \<le> length host \<and> hd host = a \<and> last host = b \<longleftrightarrow> (\<exists>inner. host = a # inner @ [b])"
proof
  assume h: "2 \<le> length host \<and> hd host = a \<and> last host = b"
  then obtain r where r: "host = a # r" "r \<noteq> []" by (cases host; cases "tl host") auto
  with h have "r = butlast r @ [b]" by (metis append_butlast_last_id last_ConsR)
  with r show "\<exists>inner. host = a # inner @ [b]" by blast
qed auto

lemma unbracket_bracketed [simp]:
  "parseIP inner \<noteq> None \<Longrightarrow> unbracket (CHR ''['' # inner @ '']'') = inner"
  by (auto simp: unbracket_def)

lemma splitRemoteHost_eq:
  "splitRemoteHost raw =
     (if CHR ''@'' \<in> set raw
      then (takeWhile (\<lambda>c. c \<noteq> CHR ''@'') raw, unbracket (tl (dropWhile (\<lambda>c. c \<noteq> CHR ''@'') raw)))
      else ([], unbracket raw))"
  by (simp add: splitRemoteHost_def goCut_def unbracket_def Let_def)

lemma splitRemoteHost_user:
  "CHR ''@'' \<notin> set u \<Longrightarrow> splitRemoteHost (u @ CHR ''@'' # h) = (u, unbracket h)"
proof -
  assume "CHR ''@'' \<notin> set u"
  then have "goCut (u @ CHR ''@'' # h) (CHR ''@'') = (u, h, True)" by (rule goCut_append)
  then show ?thesis by (simp add: splitRemoteHost_def unbracket_def Let_def)
qed

lemma splitRemoteHost_bare: "CHR ''@'' \<notin> set h \<Longrightarrow> splitRemoteHost h = ([], unbracket h)"
  by (simp add: splitRemoteHost_eq)

text \<open>What is left of a host spelling once the brackets are off.\<close>

lemma unbracket_cases:
  "parseIP (unbracket h) \<noteq> None \<or> isName (unbracket h) \<longleftrightarrow> isHostSpelling h"
proof (cases "\<exists>inner. h = CHR ''['' # inner @ '']'' \<and> parseIP inner \<noteq> None")
  case True
  then show ?thesis by (auto simp: isHostSpelling_def)
next
  case False
  then have "unbracket h = h"
    using bracketed_eq [of h "CHR ''[''" "CHR '']''"] by (auto simp: unbracket_def)
  with False show ?thesis by (auto simp: isHostSpelling_def)
qed

lemma validateRemoteHost_iff [check_iff]:
  "validateRemoteHost j = None \<longleftrightarrow> validRemoteHost (RemoteHost j)"
proof (cases "CHR ''@'' \<in> set (RemoteHost j)")
  case True
  define u where "u = takeWhile (\<lambda>c. c \<noteq> CHR ''@'') (RemoteHost j)"
  define h where "h = tl (dropWhile (\<lambda>c. c \<noteq> CHR ''@'') (RemoteHost j))"
  have raw: "RemoteHost j = u @ CHR ''@'' # h"
    unfolding u_def h_def using takeWhile_tl_dropWhile [OF True] .
  have u: "CHR ''@'' \<notin> set u" unfolding u_def by (auto dest: set_takeWhileD)
  have "validateRemoteHost j = None \<longleftrightarrow> isName u \<and> (parseIP (unbracket h) \<noteq> None \<or> isName (unbracket h))"
    using True splitRemoteHost_user [OF u, of h]
    by (simp add: validateRemoteHost_def raw userRE_iff hostnameRE_iff)
  also have "\<dots> \<longleftrightarrow> isName u \<and> isHostSpelling h" unfolding unbracket_cases ..
  also have "\<dots> \<longleftrightarrow> validRemoteHost (RemoteHost j)"
  proof
    assume "isName u \<and> isHostSpelling h"
    with raw show "validRemoteHost (RemoteHost j)" by (auto simp: validRemoteHost_def)
  next
    assume "validRemoteHost (RemoteHost j)"
    with True isHostSpelling_no_at obtain u' h' where
      h': "isName u'" "isHostSpelling h'" "RemoteHost j = u' @ CHR ''@'' # h'"
      by (auto simp: validRemoteHost_def)
    have "goCut (RemoteHost j) (CHR ''@'') = (u', h', True)"
      unfolding h'(3) by (rule goCut_append [OF isName_no_at [OF h'(1)]])
    moreover have "goCut (RemoteHost j) (CHR ''@'') = (u, h, True)"
      unfolding raw by (rule goCut_append [OF u])
    ultimately show "isName u \<and> isHostSpelling h" using h' by simp
  qed
  finally show ?thesis .
next
  case False
  then have "validateRemoteHost j = None \<longleftrightarrow> parseIP (unbracket (RemoteHost j)) \<noteq> None \<or> isName (unbracket (RemoteHost j))"
    by (simp add: validateRemoteHost_def splitRemoteHost_bare hostnameRE_iff)
  also have "\<dots> \<longleftrightarrow> isHostSpelling (RemoteHost j)" unfolding unbracket_cases ..
  also have "\<dots> \<longleftrightarrow> validRemoteHost (RemoteHost j)"
    using False by (auto simp: validRemoteHost_def)
  finally show ?thesis .
qed

section \<open>Job validation accepts exactly the valid jobs\<close>

lemma checkRequiredFields_iff [check_iff]:
  "checkRequiredFields j = None \<longleftrightarrow>
     Local j \<noteq> [] \<and> RemoteHost j \<noteq> [] \<and> RemotePath j \<noteq> [] \<and> SSHKey j \<noteq> []"
  by (simp add: checkRequiredFields_def check_iff)

lemma checkNoForbiddenChars_iff [check_iff]:
  "checkNoForbiddenChars j = None \<longleftrightarrow>
     plainRemotePath (RemotePath j) \<and> printable (Name j) \<and> printable (Local j) \<and> printable (SSHKey j)
     \<and> (\<forall>e \<in> set (Excludes j). printable e) \<and> set (SSHKey j) \<inter> {CHR '' '', CHR 0x27, CHR 0x22} = {}"
  by (auto simp: checkNoForbiddenChars_def orElse_None_iff failIf_None_iff firstErr_None_iff
      hasShellMeta_def hasControl_printable plainRemotePath_def containsAny_iff containsChar_def)

lemma checkOwnership_iff [check_iff]:
  "checkOwnership j = None \<longleftrightarrow> settableOwner (RemoteUID j) \<and> settableOwner (RemoteGID j)"
  by (auto simp: checkOwnership_def check_iff settableOwner_def split: option.splits)

lemma isAbs_nonempty: "isAbs p \<Longrightarrow> p \<noteq> []"
  by (auto simp: isAbs_Cons)

lemma validRemoteHost_nonempty: "validRemoteHost r \<Longrightarrow> r \<noteq> []"
  by (auto simp: validRemoteHost_def isHostSpelling_def isName_def parseIP_def)

lemma job_validate_iff [check_iff]: "job_validate fs j = None \<longleftrightarrow> validJob fs j"
proof -
  have keyRead: "(case checkReadable fs (SSHKey j) of None \<Rightarrow> None
        | Some err \<Rightarrow> Some (SSHKeyNotReadable (Name j) (SSHKey j) err)) = None
      \<longleftrightarrow> (\<exists>f. regularAt fs (SSHKey j) f)"
    using checkReadable_iff [of fs "SSHKey j"] by (auto split: option.splits)
  have maxDel: "(case MaxDelete j of None \<Rightarrow> None
        | Some n \<Rightarrow> failIf (n < 0) (NegativeMaxDelete (Name j))) = None
      \<longleftrightarrow> (\<forall>n. MaxDelete j = Some n \<longrightarrow> 0 \<le> n)"
    by (auto simp: failIf_def split: option.splits)
  show ?thesis
    unfolding job_validate_def orElse_None_iff keyRead maxDel checkRequiredFields_iff
      failIf_None_iff validateRemoteHost_iff checkNoForbiddenChars_iff checkOwnership_iff validJob_def
    by (auto dest: isAbs_nonempty validRemoteHost_nonempty)
qed

interpretation jobs: validator "job_validate fs" "validJob fs" for fs
  by unfold_locales (rule job_validate_iff)

lemma validateLoop_iff:
  "validateLoop fs i seen js = None \<longleftrightarrow>
     distinct (map Name js) \<and> (\<forall>j \<in> set js. Name j \<noteq> [] \<and> seen (Name j) \<noteq> Some True \<and> validJob fs j)"
proof (induction js arbitrary: i seen)
  case Nil
  then show ?case by simp
next
  case (Cons j js)
  have "(\<forall>k \<in> set js. Name k \<noteq> [] \<and> (seen(Name j \<mapsto> True)) (Name k) \<noteq> Some True \<and> validJob fs k)
      \<longleftrightarrow> Name j \<notin> Name ` set js \<and> (\<forall>k \<in> set js. Name k \<noteq> [] \<and> seen (Name k) \<noteq> Some True \<and> validJob fs k)"
    by (auto simp: image_iff eq_commute [of "Name j"] split: if_splits)
  then show ?case
    by (simp add: Cons.IH orElse_None_iff job_validate_iff) blast
qed

lemma config_validate_iff [check_iff]: "config_validate fs c = None \<longleftrightarrow> validConfig fs c"
  by (auto simp: config_validate_def validateLoop_iff validConfig_def)

interpretation configs: validator "config_validate fs" "validConfig fs" for fs
  by unfold_locales (rule config_validate_iff)

text \<open>
  Which error is reported: the one of the first job, in file order, that breaks the
  contract, and every job before it is valid.
\<close>

definition blames :: "opener \<Rightarrow> job list \<Rightarrow> job \<Rightarrow> configErr \<Rightarrow> bool" where
  "blames fs before j e \<longleftrightarrow>
     Name j = [] \<and> e = NameRequired (length before)
     \<or> Name j \<noteq> [] \<and> Name j \<in> Name ` set before \<and> e = DuplicateName (Name j)
     \<or> Name j \<noteq> [] \<and> Name j \<notin> Name ` set before \<and> job_validate fs j = Some e"

lemma validateLoop_blames:
  assumes "validateLoop fs (length prev) seen js = Some e"
    and "\<And>n. seen n = Some True \<longleftrightarrow> n \<in> Name ` set prev"
  shows "\<exists>pre j post. js = pre @ j # post \<and> blames fs (prev @ pre) j e
    \<and> (\<forall>k \<in> set pre. Name k \<noteq> [] \<and> validJob fs k)"
  using assms
proof (induction js arbitrary: prev seen)
  case Nil
  then show ?case by simp
next
  case (Cons j js)
  show ?case
  proof (cases "blames fs prev j e")
    case True
    then show ?thesis by (intro exI [of _ "[]"] exI [of _ j] exI [of _ js]) simp
  next
    case False
    with Cons.prems have j: "Name j \<noteq> []" "job_validate fs j = None"
      and rec: "validateLoop fs (length (prev @ [j])) (seen(Name j \<mapsto> True)) js = Some e"
      by (auto simp: blames_def orElse_Some_iff split: if_splits)
    have "(seen(Name j \<mapsto> True)) n = Some True \<longleftrightarrow> n \<in> Name ` set (prev @ [j])" for n
      using Cons.prems(2) by auto
    from Cons.IH [OF rec this] obtain pre k post where
      "js = pre @ k # post" "blames fs ((prev @ [j]) @ pre) k e"
      "\<forall>k \<in> set pre. Name k \<noteq> [] \<and> validJob fs k" by blast
    with j show ?thesis
      by (intro exI [of _ "j # pre"] exI [of _ k] exI [of _ post]) (auto simp: job_validate_iff)
  qed
qed

section \<open>The destination argument\<close>

text \<open>
  A reader of the documented form \<open>[USER@]HOST:DEST\<close>, with an IPv6 literal in brackets:
  user, host and path.
\<close>

definition readHostPath :: "string \<Rightarrow> (string \<times> string) option" where
  "readHostPath s =
     (if prefix ''['' s then
        (case goCut (tl s) (CHR '']'') of
           (h, p, found) \<Rightarrow> if found \<and> prefix '':'' p then Some (h, tl p) else None)
      else (case goCut s (CHR '':'') of (h, p, found) \<Rightarrow> if found then Some (h, p) else None))"

definition destStop :: "char \<Rightarrow> bool" where
  "destStop c = (c = CHR ''@'' \<or> c = CHR '':'' \<or> c = CHR ''['')"

definition readDest :: "string \<Rightarrow> (string \<times> string \<times> string) option" where
  "readDest s =
     (if prefix ''@'' (dropWhile (\<lambda>c. \<not> destStop c) s)
      then map_option (\<lambda>(h, p). (takeWhile (\<lambda>c. \<not> destStop c) s, h, p))
             (readHostPath (tl (dropWhile (\<lambda>c. \<not> destStop c) s)))
      else map_option (\<lambda>(h, p). ([], h, p)) (readHostPath s))"

lemma isName_no_stop: "isName u \<Longrightarrow> \<forall>c \<in> set u. \<not> destStop c"
  using isNameChar_safe by (auto simp: destStop_def dest: isName_chars)

lemma readDest_user:
  assumes "\<forall>c \<in> set u. \<not> destStop c"
  shows "readDest (u @ CHR ''@'' # s) = map_option (\<lambda>(h, p). (u, h, p)) (readHostPath s)"
proof -
  have "dropWhile (\<lambda>c. \<not> destStop c) (u @ CHR ''@'' # s) = CHR ''@'' # s"
    using assms by (simp add: dropWhile_append2 destStop_def)
  moreover have "takeWhile (\<lambda>c. \<not> destStop c) (u @ CHR ''@'' # s) = u"
    using assms by (simp add: takeWhile_append2 destStop_def)
  ultimately show ?thesis by (simp add: readDest_def)
qed

text \<open>The host part as it is written: bracketed when it holds a colon.\<close>

definition hostText :: "string \<Rightarrow> string" where
  "hostText host = (if CHR '':'' \<in> set host then ''['' @ host @ '']'' else host)"

definition hostLit :: "string \<Rightarrow> bool" where
  "hostLit host \<longleftrightarrow> host \<noteq> [] \<and> (\<forall>c \<in> set host. c \<notin> {CHR ''@'', CHR ''['', CHR '']''})"

lemma hostLit_unbracket:
  assumes "isHostSpelling h"
  shows "hostLit (unbracket h)"
proof -
  from assms consider ip where "parseIP (unbracket h) = Some ip" | "isName (unbracket h)"
    using unbracket_cases [of h] by auto
  then show ?thesis
  proof cases
    case 1
    then show ?thesis
      using isIPChar_safe by (auto simp: hostLit_def dest: parseIP_not_in parseIP_nonempty)
  next
    case 2
    then show ?thesis
      using isNameChar_safe by (auto simp: hostLit_def dest: isName_chars isName_hd)
  qed
qed

lemma readHostPath_hostText:
  assumes "hostLit host"
  shows "readHostPath (hostText host @ CHR '':'' # p) = Some (host, p)"
proof (cases "CHR '':'' \<in> set host")
  case True
  have "goCut (host @ CHR '']'' # CHR '':'' # p) (CHR '']'') = (host, CHR '':'' # p, True)"
    using assms by (intro goCut_append) (auto simp: hostLit_def)
  with True show ?thesis by (simp add: readHostPath_def hostText_def)
next
  case False
  obtain c r where "host = c # r" "c \<noteq> CHR ''[''"
    using assms by (cases host) (auto simp: hostLit_def)
  then have "\<not> prefix ''['' (host @ CHR '':'' # p)" by simp
  moreover have "goCut (host @ CHR '':'' # p) (CHR '':'') = (host, p, True)"
    using False by (rule goCut_append)
  ultimately show ?thesis using False by (simp add: readHostPath_def hostText_def)
qed

lemma readDest_no_user:
  assumes "hostLit host"
  shows "readDest (hostText host @ CHR '':'' # p) = Some ([], host, p)"
proof -
  have "\<not> prefix ''@'' (dropWhile (\<lambda>c. \<not> destStop c) (hostText host @ CHR '':'' # p))"
  proof (cases "CHR '':'' \<in> set host")
    case True
    then show ?thesis by (simp add: hostText_def destStop_def)
  next
    case False
    with assms have "\<forall>c \<in> set host. \<not> destStop c" by (auto simp: hostLit_def destStop_def)
    with False show ?thesis by (simp add: hostText_def dropWhile_append2 destStop_def)
  qed
  then show ?thesis using readHostPath_hostText [OF assms, of p] by (simp add: readDest_def)
qed

lemma validRemoteHost_split:
  assumes "validRemoteHost r"
  obtains user host where "splitRemoteHost r = (user, host)" "hostLit host"
    "user = [] \<or> isName user" "parseIP host \<noteq> None \<or> isName host"
proof -
  from assms consider "isHostSpelling r"
    | u h where "isName u" "isHostSpelling h" "r = u @ CHR ''@'' # h"
    by (auto simp: validRemoteHost_def)
  then show ?thesis
  proof cases
    case 1
    with that [of "[]" "unbracket r"] show ?thesis
      using unbracket_cases hostLit_unbracket isHostSpelling_no_at splitRemoteHost_bare by metis
  next
    case 2
    with that [of u "unbracket h"] show ?thesis
      using unbracket_cases hostLit_unbracket isName_no_at splitRemoteHost_user by metis
  qed
qed

lemma remoteDest_text:
  "splitRemoteHost (RemoteHost j) = (user, host) \<Longrightarrow>
   remoteDest j = (if user \<noteq> [] then user @ ''@'' else []) @ hostText host @ CHR '':'' # RemotePath j @ ''/''"
  by (simp add: remoteDest_def hostText_def containsChar_def)

lemma readDest_remoteDest:
  assumes "validRemoteHost (RemoteHost j)" and "splitRemoteHost (RemoteHost j) = (user, host)"
  shows "readDest (remoteDest j) = Some (user, host, RemotePath j @ ''/'')"
proof -
  from assms have h: "hostLit host" and u: "user = [] \<or> isName user"
    by (auto elim: validRemoteHost_split)
  show ?thesis
  proof (cases "user = []")
    case True
    with h show ?thesis by (simp add: remoteDest_text [OF assms(2)] readDest_no_user)
  next
    case False
    with u have "\<forall>c \<in> set user. \<not> destStop c" by (simp add: isName_no_stop)
    with False h show ?thesis
      by (simp add: remoteDest_text [OF assms(2)] readDest_user readHostPath_hostText)
  qed
qed

section \<open>Properties\<close>

text \<open>C9 (functional): a job passes validation exactly when it meets its contract: absolute
  paths, a login and host of the documented spellings, a remote path without control
  characters, shell metacharacters, blanks or glob characters, a key file that can be read
  and named in a command line, printable names and patterns, a deletion cap that is not
  negative, and owners that can be set.\<close>

theorem job_validate_decides: "job_validate fs j = None \<longleftrightarrow> validJob fs j"
  by (rule jobs.accepts_iff)

text \<open>C10 (functional): a job file passes validation exactly when it has jobs, their names are
  non-empty and pairwise different, and every job is valid.\<close>

theorem config_validate_decides:
  "config_validate fs c = None \<longleftrightarrow>
     Jobs c \<noteq> [] \<and> distinct (map Name (Jobs c)) \<and> (\<forall>j \<in> set (Jobs c). Name j \<noteq> [] \<and> validJob fs j)"
  by (simp add: configs.accepts_iff validConfig_def)

definition sampleJob :: job where
  "sampleJob =
     \<lparr>RemoteUID = None, RemoteGID = None, MaxDelete = Some 10, Name = ''photos'', Local = ''/data/photos'',
      RemoteHost = ''backup@nas'', RemotePath = ''/srv/photos'', SSHKey = ''/config/id'',
      Excludes = [''*.tmp''], Delete = True\<rparr>"

definition sampleFs :: opener where
  "sampleFs p = Inr (sampleFile ''key'')"

lemma sampleHost_names: "isName ''backup''" "isName ''nas''"
  by (simp_all add: isName_def isNameChar_def isAlnum_def)

lemma sampleHost_valid: "validRemoteHost (''backup'' @ CHR ''@'' # ''nas'')"
  unfolding validRemoteHost_def isHostSpelling_def using sampleHost_names by blast

lemma sampleJob_valid: "validJob sampleFs sampleJob"
  using sampleHost_valid
  by (simp add: validJob_def sampleJob_def sampleFs_def sampleFile_def regularAt_def isAbs_Cons
      plainRemotePath_def printable_def isControlByte_def shellMetaChars_def settableOwner_def)

theorem config_validate_decides_witness:
  "config_validate sampleFs \<lparr>Jobs = [sampleJob]\<rparr> = None"
  using config_validate_decides [of sampleFs "\<lparr>Jobs = [sampleJob]\<rparr>"] sampleJob_valid
  by (simp add: sampleJob_def)

text \<open>C36 (error): the error of a refused job list names the first job that is at fault: the
  jobs before it are all valid, and the error is the one of that job (a missing name with
  its index, a name already used before, or the job's own violation).\<close>

theorem config_validate_first_fault:
  assumes "config_validate fs c = Some e" and "Jobs c \<noteq> []"
  shows "\<exists>pre j post. Jobs c = pre @ j # post \<and> blames fs pre j e
    \<and> (\<forall>k \<in> set pre. Name k \<noteq> [] \<and> validJob fs k)"
proof -
  from assms have "validateLoop fs (length []) Map.empty (Jobs c) = Some e" by (simp add: config_validate_def)
  from validateLoop_blames [OF this] show ?thesis by simp
qed

theorem config_validate_first_fault_witness:
  "\<exists>pre j post. [sampleJob, sampleJob] = pre @ j # post
    \<and> blames sampleFs pre j (DuplicateName ''photos'') \<and> (\<forall>k \<in> set pre. Name k \<noteq> [] \<and> validJob sampleFs k)"
proof -
  have "config_validate sampleFs \<lparr>Jobs = [sampleJob, sampleJob]\<rparr> = Some (DuplicateName ''photos'')"
    using sampleJob_valid [folded job_validate_iff] by (simp add: config_validate_def) (simp add: sampleJob_def)
  from config_validate_first_fault [OF this] show ?thesis by simp
qed

text \<open>C26 (roundtrip): the destination argument of a valid job reads back, by the documented
  \<open>[USER@]HOST:DEST\<close> syntax, to the login, the host and the remote directory of the job,
  with IPv6 hosts in brackets.\<close>

theorem remoteDest_reads_back:
  assumes "validJob fs j"
  shows "\<exists>user host. splitRemoteHost (RemoteHost j) = (user, host)
    \<and> readDest (remoteDest j) = Some (user, host, RemotePath j @ ''/'')"
proof -
  have v: "validRemoteHost (RemoteHost j)" using assms by (simp add: validJob_def)
  obtain user host where sp: "splitRemoteHost (RemoteHost j) = (user, host)" by fastforce
  with readDest_remoteDest [OF v sp] show ?thesis by blast
qed

theorem remoteDest_reads_back_witness:
  "readDest (remoteDest sampleJob) = Some (''backup'', ''nas'', ''/srv/photos/'')"
proof -
  have sp: "splitRemoteHost (RemoteHost sampleJob) = (''backup'', ''nas'')"
    by (simp add: sampleJob_def splitRemoteHost_def goCut_def)
  from remoteDest_reads_back [OF sampleJob_valid] sp show ?thesis by (simp add: sampleJob_def)
qed

end
