(* ===== verification/Logs.thy ===== *)
theory Logs
  imports Config
begin

text \<open>
  The records the program writes with \<open>slog\<close>: a level, a message and a list of keyed
  attributes. A definition that logs returns the records it writes, in order.
\<close>

section \<open>Failures of a config load\<close>

text \<open>The stage and the error of \<open>loadConfig\<close>.\<close>

datatype loadErr =
    LoadRead goerr
  | LoadParse goerr
  | LoadValidate configErr

fun stageOf :: "loadErr \<Rightarrow> string" where
  "stageOf (LoadRead e) = ''read''"
| "stageOf (LoadParse e) = ''parse''"
| "stageOf (LoadValidate e) = ''validate''"

section \<open>Log records\<close>

datatype logLevel = LevelDebug | LevelInfo | LevelWarn | LevelError

fun levelNum :: "logLevel \<Rightarrow> int" where
  "levelNum LevelDebug = -4"
| "levelNum LevelInfo = 0"
| "levelNum LevelWarn = 4"
| "levelNum LevelError = 8"

datatype attrVal = AStr string | AInt int | ABool bool | AErr goerr | ALoadErr loadErr

record logRec =
  lr_level :: logLevel
  lr_msg :: string
  lr_attrs :: "(string \<times> attrVal) list"

definition slogInfo :: "string \<Rightarrow> (string \<times> attrVal) list \<Rightarrow> logRec" where
  "slogInfo m as = \<lparr>lr_level = LevelInfo, lr_msg = m, lr_attrs = as\<rparr>"

definition slogWarn :: "string \<Rightarrow> (string \<times> attrVal) list \<Rightarrow> logRec" where
  "slogWarn m as = \<lparr>lr_level = LevelWarn, lr_msg = m, lr_attrs = as\<rparr>"

definition slogError :: "string \<Rightarrow> (string \<times> attrVal) list \<Rightarrow> logRec" where
  "slogError m as = \<lparr>lr_level = LevelError, lr_msg = m, lr_attrs = as\<rparr>"

definition isErrorRec :: "logRec \<Rightarrow> bool" where
  "isErrorRec r = (lr_level r = LevelError)"

lemma isErrorRec_slog [simp]:
  "\<not> isErrorRec (slogInfo m as)" "\<not> isErrorRec (slogWarn m as)" "isErrorRec (slogError m as)"
  by (simp_all add: isErrorRec_def slogInfo_def slogWarn_def slogError_def)

lemma lr_msg_slog [simp]:
  "lr_msg (slogInfo m as) = m" "lr_msg (slogWarn m as) = m" "lr_msg (slogError m as) = m"
  by (simp_all add: slogInfo_def slogWarn_def slogError_def)

lemma lr_level_slog [simp]:
  "lr_level (slogInfo m as) = LevelInfo" "lr_level (slogWarn m as) = LevelWarn"
  "lr_level (slogError m as) = LevelError"
  by (simp_all add: slogInfo_def slogWarn_def slogError_def)

text \<open>The records a handler at a minimum level lets through.\<close>

definition emitted :: "logLevel \<Rightarrow> logRec list \<Rightarrow> logRec list" where
  "emitted lv rs = filter (\<lambda>r. levelNum lv \<le> levelNum (lr_level r)) rs"

definition heartbeatMsg :: string where
  "heartbeatMsg = ''sync cycle complete''"

definition isHeartbeat :: "logRec \<Rightarrow> bool" where
  "isHeartbeat r = (lr_msg r = heartbeatMsg)"

text \<open>\<open>time.Duration.Milliseconds\<close>: truncated division.\<close>

definition millis :: "int \<Rightarrow> int" where
  "millis d = (if d < 0 then - ((- d) div 1000000) else d div 1000000)"

end
