(* ===== verification/RsyncArgs.thy ===== *)
theory RsyncArgs
  imports Config
begin

text \<open>
  The argument vector of a job (sync.go): \<open>transport\<close>, \<open>sshCommand\<close> and
  \<open>buildRsyncArgs\<close>.
\<close>

section \<open>Definitions\<close>

record transport =
  compress :: string
  hostKeys :: hostKeyMode
  acls :: bool
  xattrs :: bool

definition compressionAuto :: string where
  "compressionAuto = ''auto''"

definition knownHostsPath :: string where
  "knownHostsPath = ''/config/known_hosts''"

definition sshCommand :: "string \<Rightarrow> hostKeyMode \<Rightarrow> string" where
  "sshCommand k mode =
     (if mode = HostKeyStrict
      then ''ssh -i '' @ k @ '' -o StrictHostKeyChecking=yes -o UserKnownHostsFile='' @ knownHostsPath
             @ '' -o BatchMode=yes -o ConnectTimeout=10''
      else ''ssh -i '' @ k @ '' -o StrictHostKeyChecking=accept-new -o BatchMode=yes -o ConnectTimeout=10'')"

definition filterArg :: "string \<Rightarrow> string" where
  "filterArg e = ''--filter=- '' @ e"

text \<open>The slice grows branch by branch, in the order of the source.\<close>

definition buildRsyncArgs :: "job \<Rightarrow> transport \<Rightarrow> string list" where
  "buildRsyncArgs j tr =
     (let args = [''-rlptD''];
          args = (if acls tr then args @ [''-A''] else args);
          args = (if xattrs tr then args @ [''-X''] else args);
          args = (if compress tr \<noteq> []
                  then (let a = args @ [''-z'']
                        in if compress tr \<noteq> compressionAuto
                           then a @ [''--compress-choice='' @ compress tr] else a)
                  else args);
          args = (if Delete j
                  then (let a = args @ [''--delete'']
                        in case MaxDelete j of
                             None \<Rightarrow> a
                           | Some n \<Rightarrow> a @ [''--max-delete='' @ intDec n])
                  else args);
          args = (case (RemoteUID j, RemoteGID j) of
                    (Some u, Some g) \<Rightarrow>
                      args @ [''--chown='' @ natDec (unat u) @ '':'' @ natDec (unat g), ''--super'']
                  | _ \<Rightarrow> args);
          args = args @ [''--stats'', ''-e'', sshCommand (SSHKey j) (hostKeys tr)];
          args = foldl (\<lambda>a e. a @ [filterArg e]) args globalExcludes;
          args = foldl (\<lambda>a e. if e = [] then a else a @ [filterArg e]) args (Excludes j)
      in args @ [''--'', Local j @ ''/'', remoteDest j])"

section \<open>The shape of the vector\<close>

definition transportFlags :: "transport \<Rightarrow> string list" where
  "transportFlags tr =
     (if acls tr then [''-A''] else []) @ (if xattrs tr then [''-X''] else [])
     @ (if compress tr = [] then []
        else if compress tr = compressionAuto then [''-z'']
        else [''-z'', ''--compress-choice='' @ compress tr])"

definition deleteFlags :: "job \<Rightarrow> string list" where
  "deleteFlags j =
     (if Delete j
      then ''--delete'' # (case MaxDelete j of None \<Rightarrow> [] | Some n \<Rightarrow> [''--max-delete='' @ intDec n])
      else [])"

definition ownerFlags :: "job \<Rightarrow> string list" where
  "ownerFlags j =
     (case (RemoteUID j, RemoteGID j) of
        (Some u, Some g) \<Rightarrow> [''--chown='' @ natDec (unat u) @ '':'' @ natDec (unat g), ''--super'']
      | _ \<Rightarrow> [])"

definition filterFlags :: "job \<Rightarrow> string list" where
  "filterFlags j = map filterArg (globalExcludes @ filter (\<lambda>e. e \<noteq> []) (Excludes j))"

lemma foldl_snoc_map: "foldl (\<lambda>a e. a @ [f e]) a xs = a @ map f xs"
  by (induction xs arbitrary: a) auto

lemma foldl_snoc_filter:
  "foldl (\<lambda>a e. if e = [] then a else a @ [f e]) a xs = a @ map f (filter (\<lambda>e. e \<noteq> []) xs)"
  by (induction xs arbitrary: a) auto

lemma buildRsyncArgs_shape:
  "buildRsyncArgs j tr =
     (''-rlptD'' # transportFlags tr @ deleteFlags j @ ownerFlags j)
     @ [''--stats'', ''-e'', sshCommand (SSHKey j) (hostKeys tr)]
     @ filterFlags j @ [''--'', Local j @ ''/'', remoteDest j]"
  by (simp add: buildRsyncArgs_def foldl_snoc_map foldl_snoc_filter transportFlags_def deleteFlags_def
      ownerFlags_def filterFlags_def Let_def split: option.split)

section \<open>Words of the ssh command\<close>

text \<open>
  rsync splits the \<open>-e\<close> value at blanks; without quotes in it that is all the splitting
  there is.
\<close>

fun splitBlanks :: "string \<Rightarrow> string list" where
  "splitBlanks [] = [[]]"
| "splitBlanks (c # cs) =
     (if c = CHR '' '' then [] # splitBlanks cs
      else (case splitBlanks cs of [] \<Rightarrow> [[c]] | w # ws \<Rightarrow> (c # w) # ws))"

definition wordsOf :: "string \<Rightarrow> string list" where
  "wordsOf s = filter (\<lambda>w. w \<noteq> []) (splitBlanks s)"

lemma splitBlanks_word: "CHR '' '' \<notin> set w \<Longrightarrow> splitBlanks w = [w]"
  by (induction w) auto

lemma splitBlanks_append:
  "CHR '' '' \<notin> set w \<Longrightarrow> splitBlanks (w @ CHR '' '' # s) = w # splitBlanks s"
  by (induction w) auto

lemma splitBlanks_join:
  "ws \<noteq> [] \<Longrightarrow> \<forall>w \<in> set ws. CHR '' '' \<notin> set w \<Longrightarrow> splitBlanks (joinWith '' '' ws) = ws"
  by (induction "'' ''" ws rule: joinWith.induct) (auto simp: splitBlanks_word splitBlanks_append)

definition sshWords :: "string \<Rightarrow> hostKeyMode \<Rightarrow> string list" where
  "sshWords k mode =
     [''ssh'', ''-i'', k]
     @ (if mode = HostKeyStrict
        then [''-o'', ''StrictHostKeyChecking=yes'', ''-o'', ''UserKnownHostsFile='' @ knownHostsPath]
        else [''-o'', ''StrictHostKeyChecking=accept-new''])
     @ [''-o'', ''BatchMode=yes'', ''-o'', ''ConnectTimeout=10'']"

lemma sshCommand_join: "sshCommand k mode = joinWith '' '' (sshWords k mode)"
  by (cases mode) (simp_all add: sshCommand_def sshWords_def)

lemma wordsOf_sshCommand:
  assumes "k \<noteq> []" and "CHR '' '' \<notin> set k"
  shows "wordsOf (sshCommand k mode) = sshWords k mode"
proof -
  have "\<forall>w \<in> set (sshWords k mode). w \<noteq> [] \<and> CHR '' '' \<notin> set w"
    using assms by (auto simp: sshWords_def knownHostsPath_def)
  moreover have "sshWords k mode \<noteq> []" by (simp add: sshWords_def)
  ultimately show ?thesis
    by (simp add: wordsOf_def sshCommand_join splitBlanks_join)
qed

section \<open>Printable arguments\<close>

definition knownCompression :: "string \<Rightarrow> bool" where
  "knownCompression c \<longleftrightarrow> c \<in> {[], compressionAuto, ''zstd'', ''lz4'', ''zlib''}"

lemma printable_append [simp]: "printable (a @ b) \<longleftrightarrow> printable a \<and> printable b"
  by (auto simp: printable_def)

lemma printable_Nil [simp]: "printable []"
  by (simp add: printable_def)

lemma printable_Cons [simp]: "printable (c # s) \<longleftrightarrow> \<not> isControlByte c \<and> printable s"
  by (auto simp: printable_def)

lemma printable_natDec [simp]: "printable (natDec n)"
  by (auto simp: printable_def dest: natDec_no_control)

lemma printable_intDec [simp]: "printable (intDec n)"
  by (auto simp: printable_def dest: intDec_no_control)

lemma printable_isName: "isName s \<Longrightarrow> printable s"
  using isNameChar_safe by (auto simp: printable_def dest: isName_chars)

lemma printable_parseIP: "parseIP s = Some ip \<Longrightarrow> printable s"
  using isIPChar_safe by (auto simp: printable_def dest: parseIP_not_in)

lemma printable_remoteDest:
  assumes "validRemoteHost (RemoteHost j)" and "printable (RemotePath j)"
  shows "printable (remoteDest j)"
proof -
  from assms(1) obtain user host where
    sp: "splitRemoteHost (RemoteHost j) = (user, host)" "user = [] \<or> isName user"
      "parseIP host \<noteq> None \<or> isName host" by (rule validRemoteHost_split)
  then have "printable user" "printable host"
    by (auto intro: printable_isName printable_parseIP)
  with assms(2) show ?thesis
    by (simp add: remoteDest_text [OF sp(1)] hostText_def isControlByte_def)
qed

lemma printable_sshCommand: "printable k \<Longrightarrow> printable (sshCommand k mode)"
  by (simp add: sshCommand_def knownHostsPath_def isControlByte_def)

lemma printable_flags:
  "knownCompression (compress tr) \<Longrightarrow> a \<in> set (transportFlags tr) \<Longrightarrow> printable a"
  "a \<in> set (deleteFlags j) \<Longrightarrow> printable a"
  "a \<in> set (ownerFlags j) \<Longrightarrow> printable a"
  by (auto simp: knownCompression_def compressionAuto_def transportFlags_def deleteFlags_def ownerFlags_def
      isControlByte_def split: if_splits option.splits)

lemma printable_filterFlags:
  "\<forall>e \<in> set (Excludes j). printable e \<Longrightarrow> a \<in> set (filterFlags j) \<Longrightarrow> printable a"
  by (auto simp: filterFlags_def filterArg_def globalExcludes_def isControlByte_def)

lemma buildRsyncArgs_printable:
  assumes "validJob fs j" and "knownCompression (compress tr)" and "a \<in> set (buildRsyncArgs j tr)"
  shows "printable a"
proof -
  from assms(1) have p: "printable (Local j)" "printable (SSHKey j)" "\<forall>e \<in> set (Excludes j). printable e"
    "printable (remoteDest j)"
    by (auto simp: validJob_def plainRemotePath_def intro: printable_remoteDest)
  have lits: "printable ''-rlptD''" "printable ''--stats''" "printable ''-e''" "printable ''--''"
    "printable ''/''"
    by (simp_all add: isControlByte_def)
  from assms(3) show ?thesis
    unfolding buildRsyncArgs_shape
    using p lits printable_flags(1) [OF assms(2)] printable_flags(2,3) printable_filterFlags [OF p(3)]
      printable_sshCommand [OF p(2)]
    by (auto simp del: printable_Cons)
qed

section \<open>No option injection\<close>

lemma filterFlags_dash: "a \<in> set (filterFlags j) \<Longrightarrow> \<exists>r. a = ''--filter=- '' @ r"
  by (auto simp: filterFlags_def filterArg_def)

lemma flags_dash:
  "a \<in> set (transportFlags tr @ deleteFlags j @ ownerFlags j) \<Longrightarrow> prefix ''-'' a \<and> a \<noteq> ''--'' \<and> a \<noteq> ''-e''"
  by (auto simp: transportFlags_def deleteFlags_def ownerFlags_def split: if_splits option.splits)

definition plainHead :: "char \<Rightarrow> bool" where
  "plainHead c \<longleftrightarrow> isAlnum c \<or> isIPChar c \<or> c = CHR ''[''"

lemma plainHead_not_dash: "plainHead c \<Longrightarrow> c \<noteq> CHR ''-''"
  using isIPChar_safe [of c] by (auto simp: plainHead_def isAlnum_def)

lemma plainHead_isName: "isName s \<Longrightarrow> \<exists>c r. s = c # r \<and> plainHead c"
  by (auto simp: isName_def plainHead_def split: list.splits)

lemma plainHead_host:
  assumes "hostLit host" and "parseIP host \<noteq> None \<or> isName host"
  shows "\<exists>c r. hostText host = c # r \<and> plainHead c"
proof (cases "CHR '':'' \<in> set host")
  case True
  then show ?thesis by (simp add: hostText_def plainHead_def)
next
  case False
  from assms(1) obtain c r where cr: "host = c # r" by (cases host) (auto simp: hostLit_def)
  have "plainHead c"
    using assms(2) parseIP_not_in [of host _ c] plainHead_isName [of host]
    by (auto simp: cr plainHead_def)
  with False cr show ?thesis by (simp add: hostText_def)
qed

lemma remoteDest_no_dash:
  assumes "validRemoteHost (RemoteHost j)"
  shows "\<not> prefix ''-'' (remoteDest j)"
proof -
  from assms obtain user host where
    sp: "splitRemoteHost (RemoteHost j) = (user, host)" "hostLit host" "user = [] \<or> isName user"
      "parseIP host \<noteq> None \<or> isName host" by (rule validRemoteHost_split)
  have "\<exists>c r. remoteDest j = c # r \<and> plainHead c"
  proof (cases "user = []")
    case True
    with plainHead_host [OF sp(2,4)] show ?thesis
      by (auto simp: remoteDest_text [OF sp(1)])
  next
    case False
    with sp(3) plainHead_isName [of user] show ?thesis
      by (auto simp: remoteDest_text [OF sp(1)])
  qed
  then show ?thesis by (auto dest: plainHead_not_dash)
qed

section \<open>Properties\<close>

text \<open>The option words that do not depend on any text of the job: fixed flags, and flags with a
  number of the job or the compression word of the environment.\<close>

definition ownFlags :: "string list" where
  "ownFlags = [''-rlptD'', ''-A'', ''-X'', ''-z'', ''--delete'', ''--super'', ''--stats'']"

definition ownOption :: "transport \<Rightarrow> string \<Rightarrow> bool" where
  "ownOption tr a \<longleftrightarrow>
     a \<in> set ownFlags
     \<or> a = ''--compress-choice='' @ compress tr
     \<or> (\<exists>n. a = ''--max-delete='' @ intDec n)
     \<or> (\<exists>u g. a = ''--chown='' @ natDec u @ '':'' @ natDec g)"

lemma ownFlags_members:
  "''-rlptD'' \<in> set ownFlags" "''-A'' \<in> set ownFlags" "''-X'' \<in> set ownFlags" "''-z'' \<in> set ownFlags"
  "''--delete'' \<in> set ownFlags" "''--super'' \<in> set ownFlags" "''--stats'' \<in> set ownFlags"
  by (simp_all add: ownFlags_def)

lemma ownOptionI:
  "a \<in> set ownFlags \<Longrightarrow> ownOption tr a"
  "ownOption tr (''--compress-choice='' @ compress tr)"
  "ownOption tr (''--max-delete='' @ intDec n)"
  "ownOption tr (''--chown='' @ natDec u @ '':'' @ natDec g)"
  unfolding ownOption_def by blast+

lemmas own_simps = ownOptionI(2-4) ownFlags_members [THEN ownOptionI(1)]

lemma ownOption_flags: "list_all (ownOption tr) (''-rlptD'' # transportFlags tr @ deleteFlags j @ ownerFlags j @ [''--stats''])"
proof -
  have "list_all (ownOption tr) (transportFlags tr)"
    by (simp add: transportFlags_def own_simps del: append.simps)
  moreover have "list_all (ownOption tr) (deleteFlags j)"
    by (cases "MaxDelete j") (simp_all add: deleteFlags_def own_simps del: append.simps)
  moreover have "list_all (ownOption tr) (ownerFlags j)"
    by (cases "RemoteUID j"; cases "RemoteGID j") (simp_all add: ownerFlags_def own_simps del: append.simps)
  ultimately show ?thesis by (simp add: own_simps del: append.simps)
qed

lemma ownOption_dash:
  assumes "ownOption tr a"
  shows "prefix ''-'' a \<and> a \<noteq> ''--'' \<and> a \<noteq> ''-e''"
proof -
  have "\<forall>a \<in> set ownFlags. prefix ''-'' a \<and> a \<noteq> ''--'' \<and> a \<noteq> ''-e''" by (simp add: ownFlags_def)
  with assms consider "prefix ''-'' a \<and> a \<noteq> ''--'' \<and> a \<noteq> ''-e''" | r where "a = ''--compress-choice='' @ r"
    | r where "a = ''--max-delete='' @ r" | r where "a = ''--chown='' @ r"
    unfolding ownOption_def by blast
  then show ?thesis by cases simp_all
qed

text \<open>C8 (safety): no field of a valid job can become an rsync option. The vector is a list of
  the program's own options, which hold no text of the job, then \<open>-e\<close> with the remote shell
  as its argument, then one \<open>--filter=-\<close> option with the pattern behind it for every
  built-in exclude and every non-empty exclude of the job, then \<open>--\<close> and exactly two
  operands, the absolute local directory with a trailing slash and the destination, which
  does not start with a dash. No word before that \<open>--\<close> is another \<open>--\<close> or, but for the one,
  another \<open>-e\<close>.\<close>

theorem buildRsyncArgs_no_injection:
  assumes "validJob fs j"
  shows "\<exists>opts. buildRsyncArgs j tr =
      opts @ [''-e'', sshCommand (SSHKey j) (hostKeys tr)]
        @ map (\<lambda>e. ''--filter=- '' @ e) (globalExcludes @ filter (\<lambda>e. e \<noteq> []) (Excludes j))
        @ [''--'', Local j @ ''/'', remoteDest j]
    \<and> (\<forall>a \<in> set opts. ownOption tr a \<and> prefix ''-'' a \<and> a \<noteq> ''--'' \<and> a \<noteq> ''-e'')
    \<and> isAbs (Local j) \<and> \<not> prefix ''-'' (remoteDest j)
    \<and> sshCommand (SSHKey j) (hostKeys tr) \<noteq> ''--''"
proof (intro exI conjI)
  let ?opts = "''-rlptD'' # transportFlags tr @ deleteFlags j @ ownerFlags j @ [''--stats'']"
  show "buildRsyncArgs j tr =
      ?opts @ [''-e'', sshCommand (SSHKey j) (hostKeys tr)]
        @ map (\<lambda>e. ''--filter=- '' @ e) (globalExcludes @ filter (\<lambda>e. e \<noteq> []) (Excludes j))
        @ [''--'', Local j @ ''/'', remoteDest j]"
    by (simp add: buildRsyncArgs_shape filterFlags_def filterArg_def)
  show "\<forall>a \<in> set ?opts. ownOption tr a \<and> prefix ''-'' a \<and> a \<noteq> ''--'' \<and> a \<noteq> ''-e''"
    using ownOption_flags [of tr j] ownOption_dash [of tr] unfolding list_all_iff by blast
  show "isAbs (Local j)" "\<not> prefix ''-'' (remoteDest j)"
    using assms by (simp_all add: validJob_def remoteDest_no_dash)
  show "sshCommand (SSHKey j) (hostKeys tr) \<noteq> ''--''" by (simp add: sshCommand_def)
qed

definition sampleTransport :: transport where
  "sampleTransport = \<lparr>compress = ''zstd'', hostKeys = HostKeyStrict, acls = False, xattrs = True\<rparr>"

theorem buildRsyncArgs_no_injection_witness:
  "\<exists>opts. buildRsyncArgs sampleJob sampleTransport =
      opts @ [''-e'', sshCommand ''/config/id'' HostKeyStrict]
        @ map (\<lambda>e. ''--filter=- '' @ e) (globalExcludes @ [''*.tmp''])
        @ [''--'', ''/data/photos/'', remoteDest sampleJob]
     \<and> (\<forall>a \<in> set opts. ownOption sampleTransport a)"
proof -
  have f: "Local sampleJob @ ''/'' = ''/data/photos/''" "SSHKey sampleJob = ''/config/id''"
    "hostKeys sampleTransport = HostKeyStrict" "filter (\<lambda>e. e \<noteq> []) (Excludes sampleJob) = [''*.tmp'']"
    by (simp_all add: sampleJob_def sampleTransport_def)
  obtain opts where
    args: "buildRsyncArgs sampleJob sampleTransport =
      opts @ [''-e'', sshCommand (SSHKey sampleJob) (hostKeys sampleTransport)]
        @ map (\<lambda>e. ''--filter=- '' @ e) (globalExcludes @ filter (\<lambda>e. e \<noteq> []) (Excludes sampleJob))
        @ [''--'', Local sampleJob @ ''/'', remoteDest sampleJob]"
    and own: "\<forall>a \<in> set opts. ownOption sampleTransport a \<and> prefix ''-'' a \<and> a \<noteq> ''--'' \<and> a \<noteq> ''-e''"
    using buildRsyncArgs_no_injection [OF sampleJob_valid, of sampleTransport] by (elim exE conjE)
  from own have "\<forall>a \<in> set opts. ownOption sampleTransport a" by blast
  with args [unfolded f] show ?thesis by (intro exI conjI)
qed

text \<open>The options of a vector: what stands before the first \<open>--\<close>.\<close>

definition optionsOf :: "string list \<Rightarrow> string list" where
  "optionsOf args = takeWhile (\<lambda>a. a \<noteq> ''--'') args"

lemma sshCommand_ssh: "\<exists>r. sshCommand k mode = CHR ''s'' # r"
  by (simp add: sshCommand_def)

lemma optionsOf_build:
  "optionsOf (buildRsyncArgs j tr) =
     ''-rlptD'' # transportFlags tr @ deleteFlags j @ ownerFlags j
     @ [''--stats'', ''-e'', sshCommand (SSHKey j) (hostKeys tr)] @ filterFlags j"
proof -
  let ?opts = "''-rlptD'' # transportFlags tr @ deleteFlags j @ ownerFlags j
     @ [''--stats'', ''-e'', sshCommand (SSHKey j) (hostKeys tr)] @ filterFlags j"
  have eq: "buildRsyncArgs j tr = ?opts @ ''--'' # [Local j @ ''/'', remoteDest j]"
    by (simp add: buildRsyncArgs_shape)
  have "\<forall>a \<in> set ?opts. a \<noteq> ''--''"
    using flags_dash [of _ tr j] sshCommand_ssh [of "SSHKey j" "hostKeys tr"] by (auto dest!: filterFlags_dash)
  then have "takeWhile (\<lambda>a. a \<noteq> ''--'') (?opts @ ''--'' # [Local j @ ''/'', remoteDest j])
      = ?opts @ takeWhile (\<lambda>a. a \<noteq> ''--'') (''--'' # [Local j @ ''/'', remoteDest j])"
    by (intro takeWhile_append2) blast
  then show ?thesis unfolding optionsOf_def eq by simp
qed

lemma filter_filterFlags [simp]:
  "filter (prefix ''--delete'') (filterFlags j) = []" "filter (prefix ''--max-delete='') (filterFlags j) = []"
  "filter (prefix ''--chown='') (filterFlags j) = []" "filter (prefix ''--super'') (filterFlags j) = []"
  "filter (prefix ''--filter='') (filterFlags j) = filterFlags j"
  by (auto simp: filter_empty_conv filter_id_conv dest!: filterFlags_dash)

lemma not_prefix_ssh [simp]: "\<not> prefix (CHR ''-'' # p) (sshCommand k mode)"
  using sshCommand_ssh [of k mode] by auto

text \<open>C27 (safety): deletion is opt-in and its cap is never lost. The options delete exactly
  when the job asks for it; a cap is passed exactly when the job deletes and sets one, once
  and with the job's number; and ownership is rewritten exactly when both owners are set.\<close>

theorem buildRsyncArgs_deletion:
  "filter (prefix ''--delete'') (optionsOf (buildRsyncArgs j tr)) = (if Delete j then [''--delete''] else [])
   \<and> filter (prefix ''--max-delete='') (optionsOf (buildRsyncArgs j tr)) =
       (case MaxDelete j of
          None \<Rightarrow> []
        | Some n \<Rightarrow> if Delete j then [''--max-delete='' @ intDec n] else [])
   \<and> filter (prefix ''--chown='') (optionsOf (buildRsyncArgs j tr)) =
       (case (RemoteUID j, RemoteGID j) of
          (Some u, Some g) \<Rightarrow> [''--chown='' @ natDec (unat u) @ '':'' @ natDec (unat g)]
        | _ \<Rightarrow> [])
   \<and> (''--super'' \<in> set (optionsOf (buildRsyncArgs j tr)) \<longleftrightarrow> RemoteUID j \<noteq> None \<and> RemoteGID j \<noteq> None)"
proof (intro conjI)
  show "''--super'' \<in> set (optionsOf (buildRsyncArgs j tr)) \<longleftrightarrow> RemoteUID j \<noteq> None \<and> RemoteGID j \<noteq> None"
    using sshCommand_ssh [of "SSHKey j" "hostKeys tr"]
    by (cases "RemoteUID j"; cases "RemoteGID j")
       (auto simp: optionsOf_build transportFlags_def deleteFlags_def ownerFlags_def
        dest!: filterFlags_dash split: option.splits if_splits)
qed (simp_all add: optionsOf_build transportFlags_def deleteFlags_def ownerFlags_def split: option.split)

text \<open>C29 (functional): the filter rules, in the order rsync applies them, are the built-in
  excludes and then the job's non-empty patterns, each passed as one literal exclude rule.\<close>

theorem buildRsyncArgs_filters:
  "filter (prefix ''--filter='') (optionsOf (buildRsyncArgs j tr)) =
     map (\<lambda>e. ''--filter=- '' @ e) (globalExcludes @ filter (\<lambda>e. e \<noteq> []) (Excludes j))"
  by (simp add: optionsOf_build transportFlags_def deleteFlags_def ownerFlags_def split: option.split)
     (simp add: filterFlags_def filterArg_def)

text \<open>C28 (safety): the remote shell of a valid job splits at blanks into the intended words:
  the key file is one word, host-key checking is never switched off, and the strict posture
  pins the mounted known_hosts file.\<close>

theorem sshCommand_words:
  assumes "validJob fs j"
  shows "wordsOf (sshCommand (SSHKey j) mode) =
     [''ssh'', ''-i'', SSHKey j, ''-o'']
     @ (if mode = HostKeyStrict
        then [''StrictHostKeyChecking=yes'', ''-o'', ''UserKnownHostsFile=/config/known_hosts'']
        else [''StrictHostKeyChecking=accept-new''])
     @ [''-o'', ''BatchMode=yes'', ''-o'', ''ConnectTimeout=10'']"
proof -
  have "SSHKey j \<noteq> []" "CHR '' '' \<notin> set (SSHKey j)" using assms by (auto simp: validJob_def)
  then show ?thesis by (simp add: wordsOf_sshCommand sshWords_def knownHostsPath_def)
qed

theorem sshCommand_words_witness:
  "wordsOf (sshCommand (SSHKey sampleJob) HostKeyAcceptNew) =
     [''ssh'', ''-i'', ''/config/id'', ''-o'', ''StrictHostKeyChecking=accept-new'',
      ''-o'', ''BatchMode=yes'', ''-o'', ''ConnectTimeout=10'']"
  using sshCommand_words [OF sampleJob_valid, of HostKeyAcceptNew] by (simp add: sampleJob_def)

end
