(* ===== verification/Streams.thy ===== *)
theory Streams
  imports GoText
begin

text \<open>
  The writers rsync's output is copied into (sync.go): \<open>cappedBuffer\<close>, which keeps the
  end of a stream, \<open>delLimitCapture\<close>, which watches the stream for the deletion-limit
  warning on its way into a buffer, and \<open>tail\<close>, which cuts what is logged.
\<close>

section \<open>cappedBuffer\<close>

record cappedBuffer =
  cb_buf :: string
  cb_max :: nat

definition outputCapBytes :: nat where
  "outputCapBytes = 1048576"

definition capped_Write :: "cappedBuffer \<Rightarrow> string \<Rightarrow> cappedBuffer" where
  "capped_Write c p =
     (if cb_max c \<le> length p then c\<lparr>cb_buf := drop (length p - cb_max c) p\<rparr>
      else (let overflow = length (cb_buf c) + length p - cb_max c;
                buf = (if 0 < overflow then drop overflow (cb_buf c) else cb_buf c)
            in c\<lparr>cb_buf := buf @ p\<rparr>))"

definition newCapped :: "nat \<Rightarrow> cappedBuffer" where
  "newCapped m = \<lparr>cb_buf = [], cb_max = m\<rparr>"

section \<open>delLimitCapture\<close>

definition rsyncDelLimitWarn :: string where
  "rsyncDelLimitWarn = ''Deletions stopped due to --max-delete limit''"

record delLimitCapture =
  dl_dst :: cappedBuffer
  prefixIndex :: nat
  unmatched :: bool
  limited :: bool

text \<open>
  The byte loop: the index and the flag, then the bytes left. \<open>None\<close> is the run-time
  panic of an index outside the warning; the last component of the result is \<open>limited\<close>.
\<close>

fun delScan :: "nat \<Rightarrow> bool \<Rightarrow> string \<Rightarrow> (nat \<times> bool \<times> bool) option" where
  "delScan i un [] = Some (i, un, False)"
| "delScan i un (b # bs) =
     (if b = CHR 0x0A then delScan 0 False bs
      else if un then delScan i un bs
      else if length rsyncDelLimitWarn \<le> i then None
      else if b \<noteq> rsyncDelLimitWarn ! i then delScan i True bs
      else if Suc i = length rsyncDelLimitWarn then Some (Suc i, un, True)
      else delScan (Suc i) un bs)"

definition delLimit_Write :: "delLimitCapture \<Rightarrow> string \<Rightarrow> delLimitCapture option" where
  "delLimit_Write c p =
     (if \<not> limited c
      then (case delScan (prefixIndex c) (unmatched c) p of
              None \<Rightarrow> None
            | Some (i, un, l) \<Rightarrow>
                Some (c\<lparr>prefixIndex := i, unmatched := un, limited := l, dl_dst := capped_Write (dl_dst c) p\<rparr>))
      else Some (c\<lparr>dl_dst := capped_Write (dl_dst c) p\<rparr>))"

definition newDelLimit :: "cappedBuffer \<Rightarrow> delLimitCapture" where
  "newDelLimit dst = \<lparr>dl_dst = dst, prefixIndex = 0, unmatched = False, limited = False\<rparr>"

text \<open>The copy loop of \<open>os/exec\<close>: one \<open>Write\<close> for each chunk read from the pipe.\<close>

definition copyOut :: "cappedBuffer \<Rightarrow> string list \<Rightarrow> cappedBuffer" where
  "copyOut c chunks = foldl capped_Write c chunks"

definition writeOpt :: "delLimitCapture option \<Rightarrow> string \<Rightarrow> delLimitCapture option" where
  "writeOpt c p = Option.bind c (\<lambda>s. delLimit_Write s p)"

definition copyErr :: "delLimitCapture \<Rightarrow> string list \<Rightarrow> delLimitCapture option" where
  "copyErr c chunks = foldl writeOpt (Some c) chunks"

section \<open>tail\<close>

definition logStderrTailBytes :: nat where
  "logStderrTailBytes = 2048"

definition truncMarker :: string where
  "truncMarker = ''...(truncated)...''"

function tailCut :: "string \<Rightarrow> nat \<Rightarrow> nat" where
  "tailCut s i = (if i < length s \<and> \<not> runeStart (s ! i) then tailCut s (Suc i) else i)"
  by pat_completeness auto
termination
  by (relation "measure (\<lambda>(s, i). length s - i)") auto

declare tailCut.simps [simp del]

definition tailOf :: "string \<Rightarrow> nat \<Rightarrow> string" where
  "tailOf s n =
     (if length s \<le> n then s
      else truncMarker @ drop (tailCut s (length s - n)) s)"

section \<open>A capped buffer holds the end of the stream\<close>

lemma capped_Write_lastn:
  assumes "cb_buf c = lastn (cb_max c) u"
  shows "cb_buf (capped_Write c p) = lastn (cb_max c) (u @ p)" "cb_max (capped_Write c p) = cb_max c"
proof -
  show "cb_max (capped_Write c p) = cb_max c" by (simp add: capped_Write_def Let_def)
  show "cb_buf (capped_Write c p) = lastn (cb_max c) (u @ p)"
  proof (cases "cb_max c \<le> length p")
    case True
    then show ?thesis by (simp add: capped_Write_def lastn_append_long) (simp add: lastn_def)
  next
    case False
    then have lt: "length p < cb_max c" by simp
    have "cb_buf (capped_Write c p) = drop (length (cb_buf c) + length p - cb_max c) (cb_buf c) @ p"
      using False by (simp add: capped_Write_def Let_def)
    also have "drop (length (cb_buf c) + length p - cb_max c) (cb_buf c) = lastn (cb_max c - length p) (cb_buf c)"
      using lt by (simp add: lastn_def)
    also have "\<dots> = lastn (cb_max c - length p) u"
      unfolding assms by (simp add: lastn_lastn)
    finally show ?thesis using lt by (simp add: lastn_append_short)
  qed
qed

interpretation capped: byte_sink capped_Write "newCapped m"
  "\<lambda>c u. cb_max c = m \<and> cb_buf c = lastn m u" cb_buf "lastn m" for m
proof unfold_locales
  show "cb_max (newCapped m) = m \<and> cb_buf (newCapped m) = lastn m []"
    by (simp add: newCapped_def)
next
  fix s :: cappedBuffer and u p
  assume "cb_max s = m \<and> cb_buf s = lastn m u"
  then show "cb_max (capped_Write s p) = m \<and> cb_buf (capped_Write s p) = lastn m (u @ p)"
    using capped_Write_lastn [of s u p] by simp
next
  fix s :: cappedBuffer and u
  assume "cb_max s = m \<and> cb_buf s = lastn m u"
  then show "cb_buf s = lastn m u" by simp
qed

lemma copyOut_lastn [stream_simps]: "cb_buf (copyOut (newCapped m) chunks) = lastn m (concat chunks)"
  unfolding copyOut_def by (rule capped.view_all)

section \<open>The watcher sees the warning exactly at a line start\<close>

definition newline :: char where
  "newline = CHR 0x0A"

text \<open>The stream has a line that begins with the warning.\<close>

definition warnsAtLineStart :: "string \<Rightarrow> bool" where
  "warnsAtLineStart u \<longleftrightarrow>
     (\<exists>pre post. u = pre @ rsyncDelLimitWarn @ post \<and> (pre = [] \<or> last pre = newline))"

text \<open>The bytes since the last newline.\<close>

definition lineTail :: "string \<Rightarrow> string" where
  "lineTail u = rev (takeWhile (\<lambda>c. c \<noteq> newline) (rev u))"

lemma lineTail_snoc: "lineTail (u @ [b]) = (if b = newline then [] else lineTail u @ [b])"
  by (simp add: lineTail_def)

lemma lineTail_Nil [simp]: "lineTail [] = []"
  by (simp add: lineTail_def)

lemma warn_no_newline: "newline \<notin> set rsyncDelLimitWarn"
  by (simp add: newline_def rsyncDelLimitWarn_def)

lemma lineTail_append:
  "newline \<notin> set w \<Longrightarrow> pre = [] \<or> last pre = newline \<Longrightarrow> lineTail (pre @ w) = w"
proof -
  assume w: "newline \<notin> set w" and pre: "pre = [] \<or> last pre = newline"
  have "takeWhile (\<lambda>c. c \<noteq> newline) (rev w @ rev pre) = rev w @ takeWhile (\<lambda>c. c \<noteq> newline) (rev pre)"
    using w by (intro takeWhile_append2) auto
  moreover have "takeWhile (\<lambda>c. c \<noteq> newline) (rev pre) = []"
    using pre by (cases pre rule: rev_cases) auto
  ultimately show ?thesis by (simp add: lineTail_def)
qed

lemma lineTail_split: "\<exists>pre. u = pre @ lineTail u \<and> (pre = [] \<or> last pre = newline)"
proof -
  let ?d = "dropWhile (\<lambda>c. c \<noteq> newline) (rev u)"
  have "u = rev ?d @ lineTail u"
    unfolding lineTail_def by (metis rev_append rev_rev_ident takeWhile_dropWhile_id)
  moreover have "rev ?d = [] \<or> last (rev ?d) = newline"
    using hd_dropWhile [of "\<lambda>c. c \<noteq> newline" "rev u"] by (auto simp: last_rev)
  ultimately show ?thesis by blast
qed

lemma warnsAtLineStart_snoc:
  "warnsAtLineStart (u @ [b]) \<longleftrightarrow> warnsAtLineStart u \<or> lineTail (u @ [b]) = rsyncDelLimitWarn"
proof
  assume "warnsAtLineStart (u @ [b])"
  then obtain pre post where e: "u @ [b] = pre @ rsyncDelLimitWarn @ post" "pre = [] \<or> last pre = newline"
    by (auto simp: warnsAtLineStart_def)
  show "warnsAtLineStart u \<or> lineTail (u @ [b]) = rsyncDelLimitWarn"
  proof (cases post rule: rev_cases)
    case Nil
    with e show ?thesis using lineTail_append [OF warn_no_newline e(2)] by simp
  next
    case (snoc post' c)
    with e show ?thesis by (auto simp: warnsAtLineStart_def)
  qed
next
  assume "warnsAtLineStart u \<or> lineTail (u @ [b]) = rsyncDelLimitWarn"
  then show "warnsAtLineStart (u @ [b])"
  proof
    assume "warnsAtLineStart u"
    then obtain pre post where "u = pre @ rsyncDelLimitWarn @ post" "pre = [] \<or> last pre = newline"
      by (auto simp: warnsAtLineStart_def)
    then have "u @ [b] = pre @ rsyncDelLimitWarn @ (post @ [b])" "pre = [] \<or> last pre = newline"
      by simp_all
    then show ?thesis unfolding warnsAtLineStart_def by blast
  next
    assume "lineTail (u @ [b]) = rsyncDelLimitWarn"
    with lineTail_split [of "u @ [b]"] show ?thesis
      unfolding warnsAtLineStart_def by (metis append_Nil2)
  qed
qed

lemma warnsAtLineStart_append: "warnsAtLineStart u \<Longrightarrow> warnsAtLineStart (u @ p)"
  by (induction p rule: rev_induct) (simp_all flip: append_assoc add: warnsAtLineStart_snoc)

text \<open>What the index and the flag say about the current line while no warning was seen.\<close>

definition scanState :: "nat \<Rightarrow> bool \<Rightarrow> string \<Rightarrow> bool" where
  "scanState i un u \<longleftrightarrow>
     \<not> warnsAtLineStart u
     \<and> (if un then \<not> prefix (lineTail u) rsyncDelLimitWarn
        else prefix (lineTail u) rsyncDelLimitWarn \<and> i = length (lineTail u))"

lemma scanState_bound: "scanState i False u \<Longrightarrow> i < length rsyncDelLimitWarn"
proof -
  assume s: "scanState i False u"
  have "lineTail u \<noteq> rsyncDelLimitWarn"
  proof
    assume eq: "lineTail u = rsyncDelLimitWarn"
    with lineTail_split [of u] have "warnsAtLineStart u"
      unfolding warnsAtLineStart_def by (metis append_Nil2)
    with s show False by (simp add: scanState_def)
  qed
  with s have "strict_prefix (lineTail u) rsyncDelLimitWarn" "i = length (lineTail u)"
    by (auto simp: scanState_def strict_prefix_def)
  then show ?thesis using prefix_length_less by blast
qed

lemma prefix_snoc_iff: "prefix (l @ [b]) w \<longleftrightarrow> prefix l w \<and> length l < length w \<and> w ! length l = b"
proof
  assume "prefix (l @ [b]) w"
  then show "prefix l w \<and> length l < length w \<and> w ! length l = b"
    by (auto simp: prefix_def)
next
  assume r: "prefix l w \<and> length l < length w \<and> w ! length l = b"
  then obtain z where "w = l @ z" by (auto simp: prefix_def)
  with r show "prefix (l @ [b]) w" by (cases z) auto
qed

lemma prefix_eq_iff_length: "prefix x w \<Longrightarrow> x = w \<longleftrightarrow> length x = length w"
  by (auto simp: prefix_def)

text \<open>One byte of the scan.\<close>

lemma scanState_newline: "\<not> warnsAtLineStart u \<Longrightarrow> scanState 0 False (u @ [newline])"
  by (simp add: scanState_def warnsAtLineStart_snoc lineTail_snoc)
     (simp add: rsyncDelLimitWarn_def)

lemma scanState_unmatched:
  assumes "scanState i True u" and "b \<noteq> newline"
  shows "scanState k True (u @ [b])"
proof -
  have "\<not> prefix (lineTail u @ [b]) rsyncDelLimitWarn"
    using assms(1) by (auto simp: scanState_def prefix_snoc_iff)
  then show ?thesis
    using assms by (auto simp: scanState_def warnsAtLineStart_snoc lineTail_snoc)
qed

lemma scanState_diverge:
  assumes "scanState i False u" and "b \<noteq> newline" and "b \<noteq> rsyncDelLimitWarn ! i"
  shows "scanState k True (u @ [b])"
proof -
  have "\<not> prefix (lineTail u @ [b]) rsyncDelLimitWarn"
    using assms by (auto simp: scanState_def prefix_snoc_iff)
  then show ?thesis
    using assms by (auto simp: scanState_def warnsAtLineStart_snoc lineTail_snoc)
qed

lemma scanState_match:
  assumes "scanState i False u" and "b \<noteq> newline" and "b = rsyncDelLimitWarn ! i"
  shows "if Suc i = length rsyncDelLimitWarn then warnsAtLineStart (u @ [b]) else scanState (Suc i) False (u @ [b])"
proof -
  have i: "i < length rsyncDelLimitWarn" "i = length (lineTail u)"
    using assms(1) scanState_bound by (auto simp: scanState_def)
  have p: "prefix (lineTail u @ [b]) rsyncDelLimitWarn"
    using assms i by (simp add: scanState_def prefix_snoc_iff)
  have "lineTail u @ [b] = rsyncDelLimitWarn \<longleftrightarrow> Suc i = length rsyncDelLimitWarn"
    using prefix_eq_iff_length [OF p] i(2) by simp
  with assms p i show ?thesis
    by (auto simp: scanState_def warnsAtLineStart_snoc lineTail_snoc)
qed

definition scanned :: "nat \<Rightarrow> bool \<Rightarrow> bool \<Rightarrow> string \<Rightarrow> bool" where
  "scanned i un l u \<longleftrightarrow> (if l then warnsAtLineStart u else scanState i un u)"

lemma delScan_spec:
  assumes "scanState i un u"
  shows "\<exists>i' un' l. delScan i un p = Some (i', un', l) \<and> scanned i' un' l (u @ p)"
  using assms
proof (induction p arbitrary: i un u)
  case Nil
  then show ?case by (auto simp: scanned_def)
next
  case (Cons b p)
  have nw: "\<not> warnsAtLineStart u" using Cons.prems by (simp add: scanState_def)
  consider (nl) "b = newline" | (un) "b \<noteq> newline" un
    | (div) "b \<noteq> newline" "\<not> un" "b \<noteq> rsyncDelLimitWarn ! i"
    | (hit) "b \<noteq> newline" "\<not> un" "b = rsyncDelLimitWarn ! i" by blast
  then show ?case
  proof cases
    case nl
    with Cons.IH [OF scanState_newline [OF nw]] show ?thesis by (simp add: newline_def)
  next
    case un
    with Cons.prems have "scanState i True (u @ [b])" by (auto intro: scanState_unmatched)
    from Cons.IH [OF this] un show ?thesis by (simp add: newline_def)
  next
    case div
    with Cons.prems have s: "scanState i False u" by simp
    from Cons.IH [OF scanState_diverge [OF s div(1,3), of i]] div scanState_bound [OF s]
    show ?thesis by (simp add: newline_def)
  next
    case hit
    with Cons.prems have s: "scanState i False u" by simp
    note m = scanState_match [OF s hit(1,3)]
    show ?thesis
    proof (cases "Suc i = length rsyncDelLimitWarn")
      case True
      with m warnsAtLineStart_append [of "u @ [b]" p] hit scanState_bound [OF s]
      show ?thesis by (auto simp: newline_def scanned_def)
    next
      case False
      with m have "scanState (Suc i) False (u @ [b])" by simp
      from Cons.IH [OF this] False hit scanState_bound [OF s] show ?thesis by (simp add: newline_def)
    qed
  qed
qed

text \<open>The invariant of the watcher, and the watcher as a sink of its own.\<close>

definition delTracks :: "nat \<Rightarrow> delLimitCapture option \<Rightarrow> string \<Rightarrow> bool" where
  "delTracks m so u \<longleftrightarrow>
     (\<exists>s. so = Some s \<and> cb_max (dl_dst s) = m \<and> cb_buf (dl_dst s) = lastn m u
        \<and> scanned (prefixIndex s) (unmatched s) (limited s) u)"

lemma delTracks_write: "delTracks m so u \<Longrightarrow> delTracks m (writeOpt so p) (u @ p)"
proof -
  assume "delTracks m so u"
  then obtain s where s: "so = Some s" "cb_max (dl_dst s) = m" "cb_buf (dl_dst s) = lastn m u"
      "scanned (prefixIndex s) (unmatched s) (limited s) u"
    by (auto simp: delTracks_def)
  have w: "cb_max (capped_Write (dl_dst s) p) = m" "cb_buf (capped_Write (dl_dst s) p) = lastn m (u @ p)"
    using capped_Write_lastn [of "dl_dst s" u p] s by simp_all
  show ?thesis
  proof (cases "limited s")
    case True
    with s w show ?thesis
      by (simp add: delTracks_def writeOpt_def delLimit_Write_def scanned_def warnsAtLineStart_append)
  next
    case False
    with s have "scanState (prefixIndex s) (unmatched s) u" by (simp add: scanned_def)
    from delScan_spec [OF this] obtain i' un' l where
      "delScan (prefixIndex s) (unmatched s) p = Some (i', un', l)" "scanned i' un' l (u @ p)" by blast
    with False s w show ?thesis
      by (simp add: delTracks_def writeOpt_def delLimit_Write_def)
  qed
qed

definition delView :: "delLimitCapture option \<Rightarrow> (string \<times> bool) option" where
  "delView so = map_option (\<lambda>s. (cb_buf (dl_dst s), limited s)) so"

interpretation watcher: byte_sink writeOpt "Some (newDelLimit (newCapped m))" "delTracks m" delView
  "\<lambda>u. Some (lastn m u, warnsAtLineStart u)" for m
proof unfold_locales
  show "delTracks m (Some (newDelLimit (newCapped m))) []"
    by (simp add: delTracks_def newDelLimit_def newCapped_def scanned_def scanState_def warnsAtLineStart_def)
       (simp add: rsyncDelLimitWarn_def)
next
  fix s u p
  assume "delTracks m s u"
  then show "delTracks m (writeOpt s p) (u @ p)" by (rule delTracks_write)
next
  fix s u
  assume "delTracks m s u"
  then show "delView s = Some (lastn m u, warnsAtLineStart u)"
    by (auto simp: delTracks_def delView_def scanned_def scanState_def split: if_splits)
qed

lemma copyErr_view [stream_simps]:
  "delView (copyErr (newDelLimit (newCapped m)) chunks) = Some (lastn m (concat chunks), warnsAtLineStart (concat chunks))"
  unfolding copyErr_def by (rule watcher.view_all)

lemma copyErr_Some:
  obtains s where "copyErr (newDelLimit (newCapped m)) chunks = Some s"
    "cb_buf (dl_dst s) = lastn m (concat chunks)" "limited s = warnsAtLineStart (concat chunks)"
  using copyErr_view [of m chunks] by (auto simp: delView_def)

section \<open>The logged tail\<close>

lemma tailCut_eq: "i \<le> length s \<Longrightarrow> tailCut s i = i + length (takeWhile (\<lambda>c. \<not> runeStart c) (drop i s))"
proof (induction s i rule: tailCut.induct)
  case (1 s i)
  show ?case
  proof (cases "i < length s")
    case True
    with 1 show ?thesis
      by (auto simp: tailCut.simps [of s i] simp flip: Cons_nth_drop_Suc)
  next
    case False
    with "1.prems" show ?thesis by (subst tailCut.simps) simp
  qed
qed

lemma drop_tailCut:
  assumes "n < length s"
  shows "drop (tailCut s (length s - n)) s = dropWhile (\<lambda>c. \<not> runeStart c) (lastn n s)"
proof -
  let ?l = "lastn n s"
  have "drop (tailCut s (length s - n)) s = drop (length (takeWhile (\<lambda>c. \<not> runeStart c) ?l)) ?l"
    using assms by (simp add: tailCut_eq lastn_def add.commute)
  then show ?thesis by (simp add: dropWhile_eq_drop)
qed

lemma tailOf_long: "n < length s \<Longrightarrow> tailOf s n = truncMarker @ dropWhile (\<lambda>c. \<not> runeStart c) (lastn n s)"
  by (simp add: tailOf_def drop_tailCut)

text \<open>Well-formed UTF-8: a concatenation of sequences that each decode to one rune.\<close>

definition isRuneSeq :: "string \<Rightarrow> bool" where
  "isRuneSeq s \<longleftrightarrow>
     (case s of
        [] \<Rightarrow> False
      | c # cs \<Rightarrow> (case leadInfo (byteOf c) of
                    None \<Rightarrow> False
                  | Some (n, lo, hi) \<Rightarrow> length s = n \<and> contBytesOK lo hi cs))"

definition validUTF8 :: "string \<Rightarrow> bool" where
  "validUTF8 s \<longleftrightarrow> (\<exists>cs. s = concat cs \<and> list_all isRuneSeq cs)"

lemma leadInfo_runeStart: "leadInfo (byteOf c) \<noteq> None \<Longrightarrow> runeStart c"
  by (auto simp: leadInfo_def runeStart_def split: if_splits)

lemma contBytes_not_start:
  "contBytesOK lo hi cs \<Longrightarrow> 0x80 \<le> lo \<Longrightarrow> hi \<le> 0xBF \<Longrightarrow> \<forall>c \<in> set cs. \<not> runeStart c"
  by (cases cs) (auto simp: inRange_def list_all_iff runeStart_def)

lemma isRuneSeq_shape:
  assumes "isRuneSeq s"
  obtains c cs where "s = c # cs" "runeStart c" "\<forall>x \<in> set cs. \<not> runeStart x" "length cs \<le> 3"
proof -
  from assms obtain c cs n lo hi where
    s: "s = c # cs" "leadInfo (byteOf c) = Some (n, lo, hi)" "length s = n" "contBytesOK lo hi cs"
    by (auto simp: isRuneSeq_def split: list.splits option.splits)
  have "\<forall>x \<in> set cs. \<not> runeStart x"
    using leadInfo_cases [OF s(2)] s contBytes_not_start [OF s(4)] by auto
  moreover have "length cs \<le> 3" using leadInfo_width [OF s(2)] s by simp
  ultimately show ?thesis using that s leadInfo_runeStart by fastforce
qed

lemma concat_runeStart: "list_all isRuneSeq cs \<Longrightarrow> concat cs = [] \<or> runeStart (hd (concat cs))"
  by (cases cs) (auto elim: isRuneSeq_shape)

lemma dropWhile_none: "xs = [] \<or> runeStart (hd xs) \<Longrightarrow> dropWhile (\<lambda>c. \<not> runeStart c) xs = xs"
  by (cases xs) auto

text \<open>A cut at any byte of well-formed text is within three bytes of the next rune.\<close>

lemma cut_valid:
  assumes "list_all isRuneSeq cs"
  shows "\<exists>ds. dropWhile (\<lambda>c. \<not> runeStart c) (drop i (concat cs)) = concat ds \<and> list_all isRuneSeq ds
    \<and> length (drop i (concat cs)) \<le> length (concat ds) + 3"
  using assms
proof (induction cs arbitrary: i)
  case Nil
  show ?case by (rule exI [of _ "[]"]) simp
next
  case (Cons q cs)
  from Cons.prems have q: "isRuneSeq q" and cs: "list_all isRuneSeq cs" by simp_all
  from q obtain c r where qs: "q = c # r" "runeStart c" "\<forall>x \<in> set r. \<not> runeStart x" "length r \<le> 3"
    by (rule isRuneSeq_shape)
  have "i = 0 \<or> (\<exists>k. i = Suc k \<and> k \<le> length r) \<or> (\<exists>k. i = length q + k)"
    using qs(1) by (cases i) (auto, presburger)
  then consider "i = 0" | k where "i = Suc k" "k \<le> length r" | k where "i = length q + k" by blast
  then show ?case
  proof cases
    case 1
    with qs Cons.prems show ?thesis by (intro exI [of _ "q # cs"]) simp
  next
    case 2
    have "dropWhile (\<lambda>c. \<not> runeStart c) (drop k r @ concat cs) = dropWhile (\<lambda>c. \<not> runeStart c) (concat cs)"
      using qs(3) by (intro dropWhile_append2) (auto dest: in_set_dropD)
    also have "\<dots> = concat cs"
      by (rule dropWhile_none [OF concat_runeStart [OF cs]])
    finally show ?thesis using 2 qs cs by (intro exI [of _ cs]) simp
  next
    case 3
    with Cons.IH [OF cs, of k] show ?thesis by simp
  qed
qed

lemma tailOf_valid:
  assumes "validUTF8 s" and "n < length s"
  shows "\<exists>t. tailOf s n = truncMarker @ t \<and> suffix t s \<and> validUTF8 t \<and> length t \<le> n \<and> n \<le> length t + 3"
proof -
  from assms(1) obtain cs where cs: "s = concat cs" "list_all isRuneSeq cs"
    by (auto simp: validUTF8_def)
  from cut_valid [OF cs(2), of "length s - n"] obtain ds where
    ds: "dropWhile (\<lambda>c. \<not> runeStart c) (lastn n s) = concat ds" "list_all isRuneSeq ds"
      "length (lastn n s) \<le> length (concat ds) + 3"
    by (auto simp: lastn_def simp flip: cs(1))
  have "suffix (concat ds) s"
    unfolding ds(1) [symmetric] using suffix_dropWhile suffix_lastn suffix_order.order_trans by blast
  moreover have "length (concat ds) \<le> n"
    unfolding ds(1) [symmetric] using length_dropWhile_le [of _ "lastn n s"] by (metis length_lastn min.cobounded1 order_trans)
  ultimately show ?thesis
    using ds assms(2) by (intro exI [of _ "concat ds"]) (auto simp: tailOf_long validUTF8_def)
qed

section \<open>Properties\<close>

text \<open>C32 (bounds): the capped buffer that collects rsync's output holds exactly the last
  \<open>max\<close> bytes written to it, whatever the sizes of the chunks, and keeps its bound.\<close>

theorem cappedBuffer_holds_tail:
  "cb_buf (copyOut (newCapped m) chunks) = lastn m (concat chunks)
   \<and> length (cb_buf (copyOut (newCapped m) chunks)) \<le> m
   \<and> cb_max (copyOut (newCapped m) chunks) = m"
  using capped.tracks_all [of m chunks]
  by (simp add: copyOut_def)

text \<open>C1 (functional): the deletion-cap watcher on stderr never indexes past its pattern
  (the copy does not panic), passes every byte on to its capped buffer, and is limited after
  a run exactly when some line of the whole stderr text starts with rsync's warning, however
  the text was cut into writes.\<close>

theorem delLimitCapture_detects:
  "\<exists>s. copyErr (newDelLimit (newCapped m)) chunks = Some s
     \<and> cb_buf (dl_dst s) = lastn m (concat chunks)
     \<and> (limited s \<longleftrightarrow> warnsAtLineStart (concat chunks))"
  by (rule copyErr_Some [of m chunks]) blast

text \<open>C34 (functional): the stderr tail that is logged. A text of at most \<open>n\<close> bytes is logged
  whole. Of a longer one the truncation marker is logged, followed by what is left of its
  last \<open>n\<close> bytes when the continuation bytes at their head are dropped, and nothing else
  is: the text after the marker is empty or starts at the first byte of a rune. If the whole
  text is valid UTF-8, so is what follows the marker, and at most three bytes were dropped.\<close>

theorem tail_keeps_runes:
  "if length s \<le> n then tailOf s n = s
   else \<exists>dropped t. tailOf s n = truncMarker @ t \<and> lastn n s = dropped @ t
     \<and> (\<forall>c \<in> set dropped. \<not> runeStart c) \<and> (t = [] \<or> runeStart (hd t))
     \<and> (validUTF8 s \<longrightarrow> validUTF8 t \<and> length dropped \<le> 3)"
proof (cases "length s \<le> n")
  case True
  then show ?thesis by (simp add: tailOf_def)
next
  case False
  let ?q = "\<lambda>c. \<not> runeStart c"
  have t: "tailOf s n = truncMarker @ dropWhile ?q (lastn n s)" using False by (simp add: tailOf_long)
  have split: "lastn n s = takeWhile ?q (lastn n s) @ dropWhile ?q (lastn n s)" by simp
  have head: "dropWhile ?q (lastn n s) = [] \<or> runeStart (hd (dropWhile ?q (lastn n s)))"
    using hd_dropWhile [of ?q "lastn n s"] by blast
  have len: "length (takeWhile ?q (lastn n s)) + length (dropWhile ?q (lastn n s)) = n"
    using False by (simp flip: length_append)
  have "validUTF8 (dropWhile ?q (lastn n s)) \<and> length (takeWhile ?q (lastn n s)) \<le> 3" if "validUTF8 s"
    using tailOf_valid [OF that, of n] False t len by auto
  moreover have "\<forall>c \<in> set (takeWhile ?q (lastn n s)). \<not> runeStart c" by (auto dest: set_takeWhileD)
  ultimately have "\<exists>dropped t. tailOf s n = truncMarker @ t \<and> lastn n s = dropped @ t
     \<and> (\<forall>c \<in> set dropped. \<not> runeStart c) \<and> (t = [] \<or> runeStart (hd t))
     \<and> (validUTF8 s \<longrightarrow> validUTF8 t \<and> length dropped \<le> 3)"
    using t split head by blast
  with False show ?thesis by simp
qed

definition sampleText8 :: string where
  "sampleText8 = ''caf'' @ [CHR 0xC3, CHR 0xA9]"

lemma sampleText8_valid: "validUTF8 sampleText8"
  unfolding validUTF8_def
  by (rule exI [of _ "[''c'', ''a'', ''f'', [CHR 0xC3, CHR 0xA9]]"])
     (simp add: sampleText8_def isRuneSeq_def leadInfo_def inRange_def)

theorem tail_keeps_runes_witness:
  "\<exists>dropped t. tailOf sampleText8 1 = truncMarker @ t \<and> lastn 1 sampleText8 = dropped @ t \<and> validUTF8 t"
  using tail_keeps_runes [of sampleText8 1] sampleText8_valid by (auto simp: sampleText8_def)

end
