(* ===== verification/Stats.thy ===== *)
theory Stats
  imports GoRegexp
begin

text \<open>
  \<open>parseStats\<close> and \<open>parseNum\<close> (sync.go): the counters read back from the text rsync
  prints for \<open>--stats\<close>.
\<close>

section \<open>Definitions\<close>

record syncStats =
  st_files :: int
  st_bytes :: int
  st_deletions :: int

definition isReSpace :: "char \<Rightarrow> bool" where
  "isReSpace c = (byteOf c \<in> {9, 10, 12, 13, 32})"

definition isDigitComma :: "char \<Rightarrow> bool" where
  "isDigitComma c = (isDigit c \<or> c = CHR '','')"

definition lblFiles :: string where
  "lblFiles = ''Number of regular files transferred:''"

definition lblBytes :: string where
  "lblBytes = ''Total transferred file size:''"

definition lblDeletions :: string where
  "lblDeletions = ''Number of deleted files:''"

text \<open>The three patterns share their shape: a label, blanks, a captured number.\<close>

definition statRE :: "string \<Rightarrow> reItem list" where
  "statRE lbl = [ReLit lbl, ReStar isReSpace, ReCapPlus isDigitComma]"

definition reFilesXfer :: "reItem list" where
  "reFilesXfer = statRE lblFiles"

definition reBytesXfer :: "reItem list" where
  "reBytesXfer = statRE lblBytes"

definition reDeletions :: "reItem list" where
  "reDeletions = statRE lblDeletions"

text \<open>\<open>strings.ReplaceAll(s, ",", "")\<close>.\<close>

definition dropCommas :: "string \<Rightarrow> string" where
  "dropCommas s = filter (\<lambda>c. c \<noteq> CHR '','') s"

definition parseNum :: "string \<Rightarrow> int" where
  "parseNum s = (case parseInt64 (dropCommas s) of None \<Rightarrow> 0 | Some n \<Rightarrow> n)"

definition parseStats :: "string \<Rightarrow> syncStats" where
  "parseStats out =
     (let s0 = \<lparr>st_files = 0, st_bytes = 0, st_deletions = 0\<rparr>;
          s1 = (case reFind reFilesXfer out of
                  Some (m # _) \<Rightarrow> s0\<lparr>st_files := parseNum m\<rparr> | _ \<Rightarrow> s0);
          s2 = (case reFind reBytesXfer out of
                  Some (m # _) \<Rightarrow> s1\<lparr>st_bytes := parseNum m\<rparr> | _ \<Rightarrow> s1)
      in (case reFind reDeletions out of
            Some (m # _) \<Rightarrow> s2\<lparr>st_deletions := parseNum m\<rparr> | _ \<Rightarrow> s2))"

section \<open>Specification\<close>

text \<open>
  A line of the statistics that reports \<open>n\<close> under \<open>lbl\<close>: the first occurrence of the
  label in the output, blanks, the number in decimal with commas anywhere, and then
  something that does not continue the number.
\<close>

definition reportsAt :: "string \<Rightarrow> nat \<Rightarrow> string \<Rightarrow> string \<Rightarrow> string \<Rightarrow> string \<Rightarrow> bool" where
  "reportsAt lbl n pre ws num post =
     (list_all isReSpace ws \<and> list_all isDigitComma num \<and> dropCommas num = natDec n
      \<and> (post = [] \<or> \<not> isDigitComma (hd post))
      \<and> (\<forall>i < length pre. \<not> prefix lbl (drop i (pre @ lbl @ ws @ num @ post))))"

definition statValue :: "string \<Rightarrow> string \<Rightarrow> int" where
  "statValue lbl out =
     (case reFind (statRE lbl) out of Some (m # _) \<Rightarrow> parseNum m | _ \<Rightarrow> 0)"

lemmas stat_lbl_defs = reFilesXfer_def reBytesXfer_def reDeletions_def

lemma parseStats_values:
  "parseStats out = \<lparr>st_files = statValue lblFiles out, st_bytes = statValue lblBytes out,
     st_deletions = statValue lblDeletions out\<rparr>"
  by (simp add: parseStats_def statValue_def stat_lbl_defs Let_def split: option.split list.split)

lemma isDigitComma_not_space: "isDigitComma c \<Longrightarrow> \<not> isReSpace c"
  by (auto simp: isDigitComma_def isDigit_def isReSpace_def)

lemma reMatchAt_stat:
  assumes "list_all isReSpace ws" and "list_all isDigitComma num" and "num \<noteq> []"
    and "post = [] \<or> \<not> isDigitComma (hd post)"
  shows "reMatchAt (statRE lbl) (lbl @ ws @ num @ post) = Some [num]"
proof -
  have "hd (num @ post) = hd num" using assms(3) by simp
  moreover have "isDigitComma (hd num)" using assms(2,3) by (cases num) auto
  ultimately have "\<not> isReSpace (hd (num @ post))" by (simp add: isDigitComma_not_space)
  then have "reMatchAt [ReStar isReSpace, ReCapPlus isDigitComma] (ws @ num @ post) = Some [num]"
    by (intro reMatchAt_star_prefix [OF assms(1)] reMatchAt_capPlus [OF assms(2,3,4)]) simp
  then show ?thesis by (simp add: statRE_def del: reMatchAt.simps(4,5))
qed

lemma statRE_needs_label: "\<not> prefix lbl s \<Longrightarrow> reMatchAt (statRE lbl) s = None"
  by (simp add: statRE_def)

lemma parseNum_natDec: "dropCommas num = natDec n \<Longrightarrow> n < 2 ^ 63 \<Longrightarrow> parseNum num = int n"
  by (simp add: parseNum_def parseInt64_natDec)

lemma statValue_reports:
  assumes "reportsAt lbl n pre ws num post" and "n < 2 ^ 63"
  shows "statValue lbl (pre @ lbl @ ws @ num @ post) = int n"
proof -
  have "natDec n \<noteq> []" by simp
  with assms(1) have num: "num \<noteq> []" by (metis reportsAt_def dropCommas_def filter.simps(1))
  from assms(1) num have "reMatchAt (statRE lbl) (lbl @ ws @ num @ post) = Some [num]"
    by (intro reMatchAt_stat) (auto simp: reportsAt_def)
  moreover have "reMatchAt (statRE lbl) (drop i (pre @ lbl @ ws @ num @ post)) = None"
    if "i < length pre" for i
    using assms(1) that by (intro statRE_needs_label) (simp add: reportsAt_def)
  ultimately have "reFind (statRE lbl) (pre @ lbl @ ws @ num @ post) = Some [num]"
    by (rule reFind_first)
  with assms show ?thesis
    by (simp add: statValue_def reportsAt_def parseNum_natDec)
qed

lemma statValue_absent:
  assumes "\<not> sublist lbl out"
  shows "statValue lbl out = 0"
proof -
  have "reFind (statRE lbl) out = None"
  proof (rule reFind_none)
    fix i assume "i \<le> length out"
    have "\<not> prefix lbl (drop i out)"
      using assms by (meson sublist_drop prefix_imp_sublist sublist_order.order_trans)
    then show "reMatchAt (statRE lbl) (drop i out) = None" by (rule statRE_needs_label)
  qed
  then show ?thesis by (simp add: statValue_def)
qed

text \<open>The captured number holds digits and commas only, so it is never read as negative.\<close>

lemma firstSome_Some: "firstSome f xs = Some y \<Longrightarrow> \<exists>x \<in> set xs. f x = Some y"
  by (induction xs) (auto split: option.splits)

lemma reMatchAt_capture:
  assumes "reMatchAt (statRE lbl) s = Some (m # ms)"
  shows "list_all isDigitComma m"
proof -
  from assms have "\<exists>t. reMatchAt [ReCapPlus isDigitComma] t = Some (m # ms)"
    by (auto simp: statRE_def simp del: reMatchAt.simps(5) upt_Suc split: if_splits dest!: firstSome_Some)
  then obtain t k where "m = take k t" "k \<le> length (takeWhile isDigitComma t)"
    by (auto simp del: upt_Suc dest!: firstSome_Some)
  then have "m = take k (takeWhile isDigitComma t)"
    by (metis takeWhile_eq_take take_take min.absorb2 min.commute)
  then show ?thesis by (auto simp: list_all_iff dest!: in_set_takeD set_takeWhileD)
qed

lemma reFind_capture: "reFind (statRE lbl) s = Some (m # ms) \<Longrightarrow> list_all isDigitComma m"
  by (induction s) (auto dest: reMatchAt_capture split: option.splits)

lemma parseNum_range:
  assumes "list_all isDigitComma s"
  shows "0 \<le> parseNum s \<and> parseNum s < 2 ^ 63"
proof (cases "dropCommas s = []")
  case True
  then show ?thesis by (simp add: parseNum_def parseInt64_def)
next
  case False
  have "list_all isDigit (dropCommas s)"
    using assms by (auto simp: dropCommas_def isDigitComma_def list_all_iff)
  with False show ?thesis by (simp add: parseNum_def parseInt64_digits del: of_nat_less_iff)
qed

lemma statValue_range: "0 \<le> statValue lbl out \<and> statValue lbl out < 2 ^ 63"
  using parseNum_range by (auto simp: statValue_def dest: reFind_capture split: option.splits list.splits)

section \<open>Properties\<close>

text \<open>C33 (roundtrip): the three counters are read back from a statistics text: when the first
  occurrence of a label is followed by blanks and the decimal digits of \<open>n\<close> with commas
  anywhere, and \<open>n\<close> fits an int64, that counter is \<open>n\<close>; a counter whose label does not
  occur is 0.\<close>

theorem parseStats_reads_back:
  "(reportsAt lblFiles n pre ws num post \<and> n < 2 ^ 63 \<longrightarrow>
      st_files (parseStats (pre @ lblFiles @ ws @ num @ post)) = int n)
   \<and> (reportsAt lblBytes n pre ws num post \<and> n < 2 ^ 63 \<longrightarrow>
      st_bytes (parseStats (pre @ lblBytes @ ws @ num @ post)) = int n)
   \<and> (reportsAt lblDeletions n pre ws num post \<and> n < 2 ^ 63 \<longrightarrow>
      st_deletions (parseStats (pre @ lblDeletions @ ws @ num @ post)) = int n)
   \<and> (\<not> sublist lblDeletions out \<longrightarrow> st_deletions (parseStats out) = 0)"
  by (simp add: parseStats_values statValue_reports statValue_absent)

lemma sample_report: "reportsAt lblBytes 1234567 [] '' '' ''1,234,567'' '' bytes''"
  by (simp add: reportsAt_def isReSpace_def isDigitComma_def isDigit_def dropCommas_def natDec.simps digitChar_def char_of_def bit_0)

theorem parseStats_reads_back_witness:
  "st_bytes (parseStats ([] @ lblBytes @ '' '' @ ''1,234,567'' @ '' bytes'')) = 1234567
   \<and> st_deletions (parseStats ''sent 10 bytes'') = 0"
proof
  show "st_bytes (parseStats ([] @ lblBytes @ '' '' @ ''1,234,567'' @ '' bytes'')) = 1234567"
    using parseStats_reads_back [of 1234567 "[]" "'' ''" "''1,234,567''" "'' bytes''"] sample_report
    by (simp del: append.simps append_Nil)
  have "\<not> sublist lblDeletions ''sent 10 bytes''"
    by (simp add: lblDeletions_def sublist_Cons_right)
  then show "st_deletions (parseStats ''sent 10 bytes'') = 0"
    using parseStats_reads_back [of 0 "[]" "[]" "[]" "[]" "''sent 10 bytes''"] by blast
qed

text \<open>C40 (bounds): whatever rsync prints, every counter is a non-negative int64: a number
  that does not fit is read as 0, never wrapped.\<close>

theorem parseStats_int64:
  "st_files (parseStats out) \<in> {0..<2 ^ 63}
   \<and> st_bytes (parseStats out) \<in> {0..<2 ^ 63}
   \<and> st_deletions (parseStats out) \<in> {0..<2 ^ 63}"
  using statValue_range by (simp add: parseStats_values)

end
