(* ===== verification/JobRun.thy ===== *)
theory JobRun
  imports Logs RsyncArgs Streams Stats
begin

text \<open>
  One job (sync.go): \<open>runJob\<close> and \<open>interruptedByShutdown\<close>.

  What the outside world answers during a job is the record \<open>jobEnv\<close>: the context's
  error when the pass loop looks at it, the directories, the clock before and after, and
  the subprocess as a function of the deadline, the program and its arguments. A
  subprocess (\<open>cmdRun\<close>) is described by what \<open>os/exec\<close> reports of it: whether the
  command had a cancel function and what each call of it returned, the chunks written to
  both outputs, the error of \<open>Run\<close>, the wait status if a child ran, and the errors of
  both contexts afterwards.
\<close>

section \<open>Definitions\<close>

datatype waitStatus = Exited nat | Signaled nat

text \<open>\<open>ProcessState.ExitCode\<close> and \<open>ProcessState.Success\<close>.\<close>

fun exitCodeOf :: "waitStatus \<Rightarrow> int" where
  "exitCodeOf (Exited n) = int n"
| "exitCodeOf (Signaled n) = -1"

definition psSuccess :: "waitStatus \<Rightarrow> bool" where
  "psSuccess w = (exitCodeOf w = 0)"

record cmdRun =
  cr_cancelSet :: bool
  cr_cancelCalls :: "goerr option list"
  cr_stdout :: "string list"
  cr_stderr :: "string list"
  cr_runErr :: "goerr option"
  cr_ps :: "waitStatus option"
  cr_parentErr :: "goerr option"
  cr_jobErr :: "goerr option"

type_synonym commandRunner = "int \<Rightarrow> string \<Rightarrow> string list \<Rightarrow> cmdRun"

record jobEnv =
  je_ctxErr :: "goerr option"
  je_dirs :: dirOpener
  je_start :: int
  je_end :: int
  je_run :: commandRunner

record jobResult =
  jr_stderrTail :: string
  jr_files :: int
  jr_bytes :: int
  jr_duration :: int
  jr_exitCode :: int
  jr_skipped :: bool
  jr_success :: bool
  jr_interrupted :: bool

definition zeroJobResult :: jobResult where
  "zeroJobResult =
     \<lparr>jr_stderrTail = [], jr_files = 0, jr_bytes = 0, jr_duration = 0, jr_exitCode = 0,
      jr_skipped = False, jr_success = False, jr_interrupted = False\<rparr>"

definition rsyncVanishedExit :: int where
  "rsyncVanishedExit = 24"

definition rsyncSignalExit :: int where
  "rsyncSignalExit = 20"

record drainSignals =
  ds_parentErr :: "goerr option"
  ds_jobErr :: "goerr option"
  ds_runErr :: "goerr option"
  ds_ps :: "waitStatus option"
  ds_cancelSent :: bool

definition interruptedByShutdown :: "drainSignals \<Rightarrow> bool" where
  "interruptedByShutdown s =
     (if errIsOpt (ds_jobErr s) ErrDeadlineExceeded \<or> ds_parentErr s = None then False
      else (case ds_ps s of
              None \<Rightarrow> errIsOpt (ds_runErr s) ErrCanceled
            | Some w \<Rightarrow> (exitCodeOf w < 0 \<or> exitCodeOf w = rsyncSignalExit) \<and> ds_cancelSent s))"

text \<open>The wrapper around \<open>cmd.Cancel\<close>: the flag is set by a call that returned nil.\<close>

definition cancelSentOf :: "cmdRun \<Rightarrow> bool" where
  "cancelSentOf cr = (cr_cancelSet cr \<and> None \<in> set (cr_cancelCalls cr))"

text \<open>The watcher's state after the run; \<open>runJobPanics\<close> below says when a write panicked
  instead, and the daemon then ends.\<close>

definition stderrCapture :: "cmdRun \<Rightarrow> delLimitCapture" where
  "stderrCapture cr = the (copyErr (newDelLimit (newCapped outputCapBytes)) (cr_stderr cr))"

text \<open>The transfer counters and the stderr tail, as three of the records carry them.\<close>

definition transferAttrs :: "syncStats \<Rightarrow> int \<Rightarrow> (string \<times> attrVal) list" where
  "transferAttrs stats duration =
     [(''files'', AInt (st_files stats)), (''bytes'', AInt (st_bytes stats)),
      (''deletions'', AInt (st_deletions stats)), (''duration_ms'', AInt (millis duration))]"

text \<open>The part of \<open>runJob\<close> after \<open>cmd.Run\<close>.\<close>

definition judgeRun :: "job \<Rightarrow> int \<Rightarrow> cmdRun \<Rightarrow> jobResult \<times> logRec list" where
  "judgeRun j duration cr =
     (let stats = parseStats (cb_buf (copyOut (newCapped outputCapBytes) (cr_stdout cr)));
          capture = stderrCapture cr;
          stderrTail = tailOf (cb_buf (dl_dst capture)) logStderrTailBytes;
          delLimited = limited capture;
          res = zeroJobResult\<lparr>jr_duration := duration, jr_files := st_files stats,
                  jr_bytes := st_bytes stats,
                  jr_exitCode := (case cr_ps cr of None \<Rightarrow> 0 | Some w \<Rightarrow> exitCodeOf w),
                  jr_stderrTail := stderrTail\<rparr>
      in (case cr_runErr cr of
            None \<Rightarrow>
              (res\<lparr>jr_success := True\<rparr>,
               [slogInfo ''sync ok''
                  ((''job'', AStr (Name j)) # transferAttrs stats duration @ [(''stderr'', AStr stderrTail)])])
          | Some runErr \<Rightarrow>
              (let res = (if cr_ps cr = None then res\<lparr>jr_exitCode := -1\<rparr> else res);
                   drained = interruptedByShutdown
                     \<lparr>ds_parentErr = cr_parentErr cr, ds_jobErr = cr_jobErr cr, ds_runErr = Some runErr,
                      ds_ps = cr_ps cr, ds_cancelSent = cancelSentOf cr\<rparr>
               in if cr_ps cr \<noteq> None \<and> psSuccess (the (cr_ps cr)) then
                    (res\<lparr>jr_success := True\<rparr>,
                     [slogWarn ''sync completed with a residual run error''
                        ((''job'', AStr (Name j)) # transferAttrs stats duration
                         @ [(''error'', AErr runErr), (''stderr'', AStr stderrTail)])])
                  else if cr_ps cr \<noteq> None \<and> jr_exitCode res = rsyncVanishedExit \<and> \<not> delLimited then
                    (res\<lparr>jr_success := True\<rparr>,
                     [slogWarn ''sync completed with vanished source files''
                        ((''job'', AStr (Name j)) # transferAttrs stats duration
                         @ [(''rsync_exit'', AInt (jr_exitCode res)), (''stderr'', AStr stderrTail)])])
                  else if drained then
                    (res\<lparr>jr_interrupted := True\<rparr>,
                     [slogInfo ''sync interrupted by shutdown''
                        [(''job'', AStr (Name j)), (''duration_ms'', AInt (millis duration))]])
                  else
                    (res,
                     [slogError ''sync failed''
                        [(''job'', AStr (Name j)), (''duration_ms'', AInt (millis duration)),
                         (''timed_out'', ABool (errIsOpt (cr_jobErr cr) ErrDeadlineExceeded)),
                         (''del_limited'', ABool delLimited), (''error'', AErr runErr),
                         (''rsync_exit'', AInt (jr_exitCode res)), (''stderr'', AStr stderrTail)]]))))"

definition runJob :: "jobEnv \<Rightarrow> job \<Rightarrow> int \<Rightarrow> transport \<Rightarrow> jobResult \<times> logRec list" where
  "runJob env j timeout tr =
     (let duration = je_end env - je_start env
      in (case sourceIsEmpty (je_dirs env) (Local j) of
            Inl err \<Rightarrow>
              (zeroJobResult\<lparr>jr_duration := duration\<rparr>,
               [slogError ''sync failed''
                  [(''job'', AStr (Name j)), (''path'', AStr (Local j)),
                   (''duration_ms'', AInt (millis duration)), (''error'', AErr err)]])
          | Inr isEmpty \<Rightarrow>
              if isEmpty then
                (zeroJobResult\<lparr>jr_skipped := True, jr_success := True\<rparr>,
                 [slogWarn ''skip empty source'' [(''job'', AStr (Name j)), (''path'', AStr (Local j))]])
              else judgeRun j duration (je_run env timeout ''rsync'' (buildRsyncArgs j tr))))"

text \<open>A panic of a stderr write, in the copying goroutine of \<open>cmd.Run\<close>, ends the process.\<close>

definition runJobPanics :: "jobEnv \<Rightarrow> job \<Rightarrow> int \<Rightarrow> transport \<Rightarrow> bool" where
  "runJobPanics env j timeout tr =
     (case sourceIsEmpty (je_dirs env) (Local j) of
        Inl err \<Rightarrow> False
      | Inr isEmpty \<Rightarrow>
          \<not> isEmpty
          \<and> copyErr (newDelLimit (newCapped outputCapBytes))
              (cr_stderr (je_run env timeout ''rsync'' (buildRsyncArgs j tr))) = None)"

section \<open>The interface of a job runner\<close>

definition jr_failed :: "jobResult \<Rightarrow> bool" where
  "jr_failed r \<longleftrightarrow> \<not> jr_success r \<and> \<not> jr_interrupted r"

text \<open>
  What a pass relies on: a skipped job is a success, a success is not an interruption, and
  a job writes exactly one record, an error record exactly when it failed.
\<close>

locale job_runner =
  fixes run :: "'e \<Rightarrow> job \<Rightarrow> jobResult \<times> logRec list"
  assumes skipped_success: "jr_skipped (fst (run e j)) \<Longrightarrow> jr_success (fst (run e j))"
    and success_not_interrupted: "jr_success (fst (run e j)) \<Longrightarrow> \<not> jr_interrupted (fst (run e j))"
    and one_record: "\<exists>l. snd (run e j) = [l] \<and> (isErrorRec l \<longleftrightarrow> jr_failed (fst (run e j)))"
begin

lemma trichotomy:
  "jr_success (fst (run e j)) \<and> \<not> jr_interrupted (fst (run e j)) \<and> \<not> jr_failed (fst (run e j))
   \<or> \<not> jr_success (fst (run e j)) \<and> jr_interrupted (fst (run e j)) \<and> \<not> jr_failed (fst (run e j))
   \<or> \<not> jr_success (fst (run e j)) \<and> \<not> jr_interrupted (fst (run e j)) \<and> jr_failed (fst (run e j))"
  using success_not_interrupted [of e j] by (auto simp: jr_failed_def)

lemma error_iff_failed: "list_ex isErrorRec (snd (run e j)) \<longleftrightarrow> jr_failed (fst (run e j))"
  using one_record [of e j] by auto

lemma length_records: "length (snd (run e j)) = 1"
  using one_record [of e j] by auto

end

section \<open>The verdict on a run\<close>

text \<open>The transfer counts as done: no error, a clean exit, or the vanished-files warning
  without a capped deletion.\<close>

definition transferDone :: "cmdRun \<Rightarrow> bool" where
  "transferDone cr \<longleftrightarrow>
     cr_runErr cr = None \<or> cr_ps cr = Some (Exited 0)
     \<or> cr_ps cr = Some (Exited 24) \<and> \<not> warnsAtLineStart (concat (cr_stderr cr))"

text \<open>The program itself stopped the child while the daemon was being stopped.\<close>

definition drainedRun :: "cmdRun \<Rightarrow> bool" where
  "drainedRun cr \<longleftrightarrow>
     cr_parentErr cr \<noteq> None \<and> \<not> errIsOpt (cr_jobErr cr) ErrDeadlineExceeded
     \<and> (case cr_ps cr of
          None \<Rightarrow> errIsOpt (cr_runErr cr) ErrCanceled
        | Some (Exited n) \<Rightarrow> n = 20 \<and> cancelSentOf cr
        | Some (Signaled n) \<Rightarrow> cancelSentOf cr)"

lemma stderrCapture_facts [stream_simps]:
  "cb_buf (dl_dst (stderrCapture cr)) = lastn outputCapBytes (concat (cr_stderr cr))"
  "limited (stderrCapture cr) = warnsAtLineStart (concat (cr_stderr cr))"
  unfolding stderrCapture_def
  by (rule copyErr_Some [of outputCapBytes "cr_stderr cr"], simp)+

lemma runJobPanics_never: "\<not> runJobPanics env j timeout tr"
  using copyErr_Some [of outputCapBytes] by (simp add: runJobPanics_def split: sum.split) (metis option.distinct(1))

lemma psSuccess_iff: "psSuccess w \<longleftrightarrow> w = Exited 0"
  by (cases w) (auto simp: psSuccess_def)

lemma exit24_iff: "exitCodeOf w = rsyncVanishedExit \<longleftrightarrow> w = Exited 24"
  by (cases w) (auto simp: rsyncVanishedExit_def)

lemma interrupted_iff_drained:
  "cr_runErr cr = Some e \<Longrightarrow> cr_ps cr = po \<Longrightarrow>
   interruptedByShutdown
     \<lparr>ds_parentErr = cr_parentErr cr, ds_jobErr = cr_jobErr cr, ds_runErr = Some e,
      ds_ps = po, ds_cancelSent = cancelSentOf cr\<rparr> \<longleftrightarrow> drainedRun cr"
  by (auto simp: interruptedByShutdown_def drainedRun_def rsyncSignalExit_def
      split: option.splits waitStatus.splits)

lemmas judge_simps = judgeRun_def Let_def zeroJobResult_def stream_simps psSuccess_iff exit24_iff
  interrupted_iff_drained

lemma judgeRun_success [outcome_simps]: "jr_success (fst (judgeRun j d cr)) \<longleftrightarrow> transferDone cr"
  by (cases "cr_runErr cr"; cases "cr_ps cr")
     (auto simp: judge_simps transferDone_def)

lemma judgeRun_interrupted [outcome_simps]:
  "jr_interrupted (fst (judgeRun j d cr)) \<longleftrightarrow> \<not> transferDone cr \<and> drainedRun cr"
  by (cases "cr_runErr cr"; cases "cr_ps cr")
     (auto simp: judge_simps transferDone_def)

lemma judgeRun_skipped [outcome_simps]: "\<not> jr_skipped (fst (judgeRun j d cr))"
  by (cases "cr_runErr cr"; cases "cr_ps cr") (auto simp: judge_simps)

lemma judgeRun_record:
  "\<exists>l. snd (judgeRun j d cr) = [l] \<and> (isErrorRec l \<longleftrightarrow> jr_failed (fst (judgeRun j d cr)))"
  by (cases "cr_runErr cr"; cases "cr_ps cr")
     (auto simp: judge_simps jr_failed_def)

text \<open>The three ways \<open>runJob\<close> can go, by the emptiness of the source.\<close>

lemma runJob_cases:
  obtains (unreadable) err l where "sourceIsEmpty (je_dirs env) (Local j) = Inl err"
      "runJob env j timeout tr = (zeroJobResult\<lparr>jr_duration := je_end env - je_start env\<rparr>, [l])" "isErrorRec l"
  | (empty) l where "sourceIsEmpty (je_dirs env) (Local j) = Inr True"
      "runJob env j timeout tr = (zeroJobResult\<lparr>jr_skipped := True, jr_success := True\<rparr>, [l])" "\<not> isErrorRec l"
  | (ran) "sourceIsEmpty (je_dirs env) (Local j) = Inr False"
      "runJob env j timeout tr =
         judgeRun j (je_end env - je_start env) (je_run env timeout ''rsync'' (buildRsyncArgs j tr))"
proof (cases "sourceIsEmpty (je_dirs env) (Local j)")
  case (Inl err)
  then show ?thesis by (intro unreadable) (auto simp: runJob_def Let_def)
next
  case (Inr b)
  show ?thesis
  proof (cases b)
    case True
    with Inr show ?thesis by (intro empty) (auto simp: runJob_def Let_def)
  next
    case False
    with Inr show ?thesis by (intro ran) (auto simp: runJob_def Let_def)
  qed
qed

interpretation rsync: job_runner "\<lambda>env j. runJob env j timeout tr" for timeout tr
proof unfold_locales
  fix e j
  show "jr_skipped (fst (runJob e j timeout tr)) \<Longrightarrow> jr_success (fst (runJob e j timeout tr))"
    by (rule runJob_cases [of e j timeout tr]) (auto simp: zeroJobResult_def judgeRun_skipped)
  show "jr_success (fst (runJob e j timeout tr)) \<Longrightarrow> \<not> jr_interrupted (fst (runJob e j timeout tr))"
    by (rule runJob_cases [of e j timeout tr]) (auto simp: zeroJobResult_def outcome_simps)
  show "\<exists>l. snd (runJob e j timeout tr) = [l] \<and> (isErrorRec l \<longleftrightarrow> jr_failed (fst (runJob e j timeout tr)))"
    using judgeRun_record
    by (rule_tac runJob_cases [of e j timeout tr]) (auto simp: zeroJobResult_def jr_failed_def)
qed

section \<open>Properties\<close>

text \<open>C2 (functional): when a job counts as synced. Either its source is empty and rsync is
  not run, or rsync ran and \<open>Run\<close> returned no error, or the child exited 0, or it exited
  24 (vanished files) without the deletion-cap warning on any line of stderr. A capped
  deletion therefore never passes as a success.\<close>

theorem runJob_success_iff:
  fixes env j timeout tr
  defines "cr \<equiv> je_run env timeout ''rsync'' (buildRsyncArgs j tr)"
  shows "jr_success (fst (runJob env j timeout tr)) \<longleftrightarrow>
     sourceIsEmpty (je_dirs env) (Local j) = Inr True
     \<or> sourceIsEmpty (je_dirs env) (Local j) = Inr False
       \<and> (cr_runErr cr = None \<or> cr_ps cr = Some (Exited 0)
          \<or> cr_ps cr = Some (Exited 24) \<and> \<not> warnsAtLineStart (concat (cr_stderr cr)))"
  unfolding cr_def
  by (rule runJob_cases [of env j timeout tr]) (auto simp: zeroJobResult_def outcome_simps transferDone_def)

text \<open>C16 (safety): when a job counts as interrupted rather than failed: rsync ran and did
  not finish, the daemon is being stopped, the job's own deadline did not expire, and the
  end is the program's doing (the child died of a signal or exited 20 after the program's
  own cancel was delivered, or never started because of the cancellation). A job whose
  deadline expired is never an interruption: unless its transfer was done, it failed.\<close>

theorem runJob_interrupted_iff:
  fixes env j timeout tr
  defines "cr \<equiv> je_run env timeout ''rsync'' (buildRsyncArgs j tr)"
  shows "(jr_interrupted (fst (runJob env j timeout tr)) \<longleftrightarrow>
     sourceIsEmpty (je_dirs env) (Local j) = Inr False \<and> \<not> transferDone cr
     \<and> cr_parentErr cr \<noteq> None \<and> \<not> errIsOpt (cr_jobErr cr) ErrDeadlineExceeded
     \<and> (cr_ps cr = None \<and> errIsOpt (cr_runErr cr) ErrCanceled
        \<or> (cr_ps cr = Some (Exited 20) \<or> (\<exists>n. cr_ps cr = Some (Signaled n)))
          \<and> cr_cancelSet cr \<and> None \<in> set (cr_cancelCalls cr)))
    \<and> (sourceIsEmpty (je_dirs env) (Local j) = Inr False \<and> errIsOpt (cr_jobErr cr) ErrDeadlineExceeded \<longrightarrow>
        (jr_failed (fst (runJob env j timeout tr)) \<longleftrightarrow> \<not> transferDone cr))"
  unfolding cr_def
  by (rule runJob_cases [of env j timeout tr])
     (auto simp: zeroJobResult_def outcome_simps drainedRun_def cancelSentOf_def jr_failed_def
       split: option.splits waitStatus.splits)

text \<open>C17 (invariant): every job ends in exactly one of success, interruption and failure,
  a skipped job is a success, and it writes exactly one log record, at level error exactly
  when it failed.\<close>

theorem runJob_one_verdict:
  "(jr_success (fst (runJob env j timeout tr)) \<longleftrightarrow>
      \<not> jr_interrupted (fst (runJob env j timeout tr)) \<and> \<not> jr_failed (fst (runJob env j timeout tr)))
   \<and> \<not> (jr_interrupted (fst (runJob env j timeout tr)) \<and> jr_failed (fst (runJob env j timeout tr)))
   \<and> (jr_skipped (fst (runJob env j timeout tr)) \<longleftrightarrow> sourceIsEmpty (je_dirs env) (Local j) = Inr True)
   \<and> (\<exists>l. snd (runJob env j timeout tr) = [l]
        \<and> (lr_level l = LevelError \<longleftrightarrow> jr_failed (fst (runJob env j timeout tr))))"
proof (intro conjI)
  show "jr_skipped (fst (runJob env j timeout tr)) \<longleftrightarrow> sourceIsEmpty (je_dirs env) (Local j) = Inr True"
    by (rule runJob_cases [of env j timeout tr]) (auto simp: zeroJobResult_def outcome_simps)
  show "\<exists>l. snd (runJob env j timeout tr) = [l]
        \<and> (lr_level l = LevelError \<longleftrightarrow> jr_failed (fst (runJob env j timeout tr)))"
    using rsync.one_record [of env j timeout tr] by (simp add: isErrorRec_def)
qed (use rsync.trichotomy [of env j timeout tr] in \<open>auto\<close>)

text \<open>C18 (safety): an empty or unreadable source never reaches rsync: the outcome of the job
  does not depend on what the command would have done, so a vanished mount cannot delete
  the remote copy.\<close>

theorem runJob_empty_guard:
  assumes "sourceIsEmpty (je_dirs env) (Local j) \<noteq> Inr False"
  shows "runJob (env\<lparr>je_run := r\<rparr>) j timeout tr = runJob env j timeout tr"
  using assms by (simp add: runJob_def Let_def split: sum.split)

definition sampleRun :: cmdRun where
  "sampleRun =
     \<lparr>cr_cancelSet = True, cr_cancelCalls = [], cr_stdout = [], cr_stderr = [], cr_runErr = None,
      cr_ps = Some (Exited 0), cr_parentErr = None, cr_jobErr = None\<rparr>"

definition sampleJobEnv :: "string list \<Rightarrow> jobEnv" where
  "sampleJobEnv names =
     \<lparr>je_ctxErr = None, je_dirs = (\<lambda>p. Inr \<lparr>od_names = names, od_err = None\<rparr>), je_start = 0, je_end = 0,
      je_run = (\<lambda>t p as. sampleRun)\<rparr>"

lemma sampleJobEnv_empty:
  "sourceIsEmpty (je_dirs (sampleJobEnv names)) p = Inr (\<not> list_ex (\<lambda>n. n \<notin> set globalExcludes) names)"
  by (simp add: sampleJobEnv_def sourceIsEmpty_spec emptySpec_def)

theorem runJob_empty_guard_witness:
  "runJob ((sampleJobEnv [''.stfolder''])\<lparr>je_run := (\<lambda>t p as. sampleRun\<lparr>cr_runErr := Some ErrCanceled\<rparr>)\<rparr>)
      sampleJob 1 sampleTransport
   = runJob (sampleJobEnv [''.stfolder'']) sampleJob 1 sampleTransport"
  by (rule runJob_empty_guard) (simp add: sampleJobEnv_empty globalExcludes_def)

definition timedOutRun :: cmdRun where
  "timedOutRun =
     sampleRun\<lparr>cr_cancelCalls := [None], cr_runErr := Some ErrDeadlineExceeded, cr_ps := Some (Signaled 15),
       cr_parentErr := Some ErrCanceled, cr_jobErr := Some ErrDeadlineExceeded\<rparr>"

theorem runJob_interrupted_iff_witness:
  "jr_failed (fst (runJob ((sampleJobEnv [''a.jpg''])\<lparr>je_run := (\<lambda>t p as. timedOutRun)\<rparr>) sampleJob 1 sampleTransport))"
proof -
  let ?env = "(sampleJobEnv [''a.jpg''])\<lparr>je_run := (\<lambda>t p as. timedOutRun)\<rparr>"
  have "sourceIsEmpty (je_dirs ?env) (Local sampleJob) = Inr False"
    using sampleJobEnv_empty [of "[''a.jpg'']" "Local sampleJob"] by (simp add: globalExcludes_def)
  moreover have "errIsOpt (cr_jobErr timedOutRun) ErrDeadlineExceeded" by (simp add: timedOutRun_def)
  moreover have "\<not> transferDone timedOutRun" by (simp add: transferDone_def timedOutRun_def)
  ultimately show ?thesis
    using conjunct2 [OF runJob_interrupted_iff [of ?env sampleJob 1 sampleTransport]] by simp
qed

end
