(* ===== verification/Pass.thy ===== *)
theory Pass
  imports JobRun
begin

text \<open>
  One pass over the job list (sync.go): \<open>passResult\<close>, \<open>runPass\<close>, \<open>reportPass\<close> and
  the two verdicts \<open>healthy\<close> and \<open>vouchable\<close> that the daemon publishes.
\<close>

section \<open>Definitions\<close>

record passResult =
  pr_trigger :: string
  pr_total :: nat
  pr_ok :: nat
  pr_emptySkipped :: nat
  pr_failed :: nat
  pr_duration :: int
  pr_interrupted :: bool

definition healthy :: "passResult \<Rightarrow> bool" where
  "healthy r = (pr_failed r = 0)"

definition vouchable :: "passResult \<Rightarrow> bool" where
  "vouchable r = (\<not> pr_interrupted r \<or> 0 < pr_failed r)"

text \<open>The outside world during a pass: one environment for each job, and the clock.\<close>

record passEnv =
  pe_jobs :: "nat \<Rightarrow> jobEnv"
  pe_start :: int
  pe_end :: int

text \<open>The switch of the loop: a skipped, successful, interrupted or failed job.\<close>

definition tally :: "jobResult \<Rightarrow> passResult \<Rightarrow> passResult" where
  "tally jr res =
     (if jr_skipped jr then res\<lparr>pr_emptySkipped := Suc (pr_emptySkipped res), pr_ok := Suc (pr_ok res)\<rparr>
      else if jr_success jr then res\<lparr>pr_ok := Suc (pr_ok res)\<rparr>
      else if jr_interrupted jr then res\<lparr>pr_interrupted := True\<rparr>
      else res\<lparr>pr_failed := Suc (pr_failed res)\<rparr>)"

fun passLoop ::
  "(nat \<Rightarrow> jobEnv) \<Rightarrow> int \<Rightarrow> transport \<Rightarrow> nat \<Rightarrow> job list \<Rightarrow> passResult \<Rightarrow> passResult \<times> logRec list" where
  "passLoop envs timeout tr i [] res = (res, [])"
| "passLoop envs timeout tr i (j # js) res =
     (if je_ctxErr (envs i) \<noteq> None then (res\<lparr>pr_interrupted := True\<rparr>, [])
      else (case runJob (envs i) j timeout tr of
              (jr, lg) \<Rightarrow>
                (case passLoop envs timeout tr (Suc i) js (tally jr res) of
                   (r, lgs) \<Rightarrow> (r, lg @ lgs))))"

definition runPass ::
  "passEnv \<Rightarrow> config \<Rightarrow> int \<Rightarrow> transport \<Rightarrow> string \<Rightarrow> passResult \<times> logRec list" where
  "runPass env cfg timeout tr trig =
     (let res0 = \<lparr>pr_trigger = trig, pr_total = length (Jobs cfg), pr_ok = 0, pr_emptySkipped = 0,
                  pr_failed = 0, pr_duration = 0, pr_interrupted = False\<rparr>
      in case passLoop (pe_jobs env) timeout tr 0 (Jobs cfg) res0 of
           (res, lg) \<Rightarrow> (res\<lparr>pr_duration := pe_end env - pe_start env\<rparr>, lg))"

text \<open>A panic of a job that the loop runs; it ends the process, whatever the loop would do
  next.\<close>

fun passPanics :: "(nat \<Rightarrow> jobEnv) \<Rightarrow> int \<Rightarrow> transport \<Rightarrow> nat \<Rightarrow> job list \<Rightarrow> bool" where
  "passPanics envs timeout tr i [] = False"
| "passPanics envs timeout tr i (j # js) =
     (je_ctxErr (envs i) = None
      \<and> (runJobPanics (envs i) j timeout tr \<or> passPanics envs timeout tr (Suc i) js))"

definition passAttrs :: "passResult \<Rightarrow> (string \<times> attrVal) list" where
  "passAttrs r =
     [(''trigger'', AStr (pr_trigger r)), (''jobs'', AInt (int (pr_total r))), (''ok'', AInt (int (pr_ok r))),
      (''skipped'', AInt (int (pr_emptySkipped r))), (''failed'', AInt (int (pr_failed r))),
      (''duration_ms'', AInt (millis (pr_duration r)))]"

definition reportPass :: "passResult \<Rightarrow> logRec list" where
  "reportPass r =
     (if pr_interrupted r then [slogWarn ''sync cycle interrupted by shutdown'' (passAttrs r)]
      else [slogInfo heartbeatMsg (passAttrs r)])"

lemma passPanics_never [simp]: "\<not> passPanics envs timeout tr i js"
  by (induction js arbitrary: i) (simp_all add: runJobPanics_never)

section \<open>What a pass runs and what it counts\<close>

text \<open>
  The specification: the jobs up to the first one that finds the context cancelled, each
  run once, in file order.
\<close>

definition jobRunsFrom ::
  "(nat \<Rightarrow> jobEnv) \<Rightarrow> int \<Rightarrow> transport \<Rightarrow> nat \<Rightarrow> job list \<Rightarrow> (jobResult \<times> logRec list) list" where
  "jobRunsFrom envs timeout tr i js =
     map (\<lambda>(e, j). runJob e j timeout tr)
       (takeWhile (\<lambda>(e, j). je_ctxErr e = None) (zip (map envs [i..<i + length js]) js))"

lemma jobRunsFrom_Nil [simp]: "jobRunsFrom envs timeout tr i [] = []"
  by (simp add: jobRunsFrom_def)

lemma jobRunsFrom_Cons:
  "jobRunsFrom envs timeout tr i (j # js) =
     (if je_ctxErr (envs i) = None
      then runJob (envs i) j timeout tr # jobRunsFrom envs timeout tr (Suc i) js else [])"
proof -
  have "[i..<i + length (j # js)] = i # [Suc i..<Suc i + length js]"
    by (subst upt_conv_Cons) simp_all
  then show ?thesis by (simp add: jobRunsFrom_def)
qed

definition countRuns :: "(jobResult \<Rightarrow> bool) \<Rightarrow> (jobResult \<times> logRec list) list \<Rightarrow> nat" where
  "countRuns P rs = length (filter (\<lambda>r. P (fst r)) rs)"

lemma countRuns_simps [simp]:
  "countRuns P [] = 0"
  "countRuns P (r # rs) = (if P (fst r) then Suc (countRuns P rs) else countRuns P rs)"
  by (simp_all add: countRuns_def)

lemma countRuns_le: "countRuns P rs \<le> length rs"
  by (simp add: countRuns_def)

lemma tally_fields [outcome_simps]:
  "pr_ok (tally jr res) = (if jr_skipped jr \<or> jr_success jr then Suc (pr_ok res) else pr_ok res)"
  "pr_emptySkipped (tally jr res) = (if jr_skipped jr then Suc (pr_emptySkipped res) else pr_emptySkipped res)"
  "pr_failed (tally jr res) = (if jr_failed jr \<and> \<not> jr_skipped jr then Suc (pr_failed res) else pr_failed res)"
  "pr_interrupted (tally jr res) \<longleftrightarrow>
     pr_interrupted res \<or> \<not> jr_skipped jr \<and> \<not> jr_success jr \<and> jr_interrupted jr"
  "pr_total (tally jr res) = pr_total res" "pr_trigger (tally jr res) = pr_trigger res"
  by (auto simp: tally_def jr_failed_def)

definition passSpec :: "(jobResult \<times> logRec list) list \<Rightarrow> nat \<Rightarrow> passResult \<Rightarrow> passResult \<Rightarrow> bool" where
  "passSpec rs n res r \<longleftrightarrow>
     pr_ok r = pr_ok res + countRuns jr_success rs
     \<and> pr_emptySkipped r = pr_emptySkipped res + countRuns jr_skipped rs
     \<and> pr_failed r = pr_failed res + countRuns jr_failed rs
     \<and> pr_interrupted r = (pr_interrupted res \<or> length rs < n \<or> 0 < countRuns jr_interrupted rs)
     \<and> pr_total r = pr_total res \<and> pr_trigger r = pr_trigger res"

lemma passLoop_spec:
  "passSpec (jobRunsFrom envs timeout tr i js) (length js) res (fst (passLoop envs timeout tr i js res))
   \<and> snd (passLoop envs timeout tr i js res) = concat (map snd (jobRunsFrom envs timeout tr i js))"
proof (induction js arbitrary: i res)
  case Nil
  then show ?case by (simp add: passSpec_def)
next
  case (Cons j js)
  show ?case
  proof (cases "je_ctxErr (envs i)")
    case (Some e)
    then show ?thesis by (simp add: jobRunsFrom_Cons passSpec_def)
  next
    case None
    obtain jr lg where run: "runJob (envs i) j timeout tr = (jr, lg)" by fastforce
    obtain r lgs where rec: "passLoop envs timeout tr (Suc i) js (tally jr res) = (r, lgs)" by fastforce
    have jr: "jr_skipped jr \<Longrightarrow> jr_success jr" "jr_success jr \<Longrightarrow> \<not> jr_interrupted jr"
      using rsync.skipped_success [of "envs i" j timeout tr] rsync.success_not_interrupted [of "envs i" j timeout tr]
      by (simp_all add: run)
    from Cons.IH [of "Suc i" "tally jr res"] None run rec jr show ?thesis
      by (auto simp: passSpec_def jobRunsFrom_Cons tally_fields jr_failed_def)
  qed
qed

definition jobRuns :: "passEnv \<Rightarrow> config \<Rightarrow> int \<Rightarrow> transport \<Rightarrow> (jobResult \<times> logRec list) list" where
  "jobRuns env cfg timeout tr = jobRunsFrom (pe_jobs env) timeout tr 0 (Jobs cfg)"

lemma runPass_counts:
  fixes env cfg timeout tr trig
  defines "rs \<equiv> jobRuns env cfg timeout tr" and "r \<equiv> fst (runPass env cfg timeout tr trig)"
  shows "pr_ok r = countRuns jr_success rs" "pr_emptySkipped r = countRuns jr_skipped rs"
    "pr_failed r = countRuns jr_failed rs" "pr_total r = length (Jobs cfg)" "pr_trigger r = trig"
    "pr_interrupted r \<longleftrightarrow> length rs < length (Jobs cfg) \<or> 0 < countRuns jr_interrupted rs"
    "snd (runPass env cfg timeout tr trig) = concat (map snd rs)"
  using passLoop_spec [of "pe_jobs env" timeout tr 0 "Jobs cfg"
      "\<lparr>pr_trigger = trig, pr_total = length (Jobs cfg), pr_ok = 0, pr_emptySkipped = 0,
        pr_failed = 0, pr_duration = 0, pr_interrupted = False\<rparr>"]
  by (simp_all add: assms runPass_def jobRuns_def passSpec_def Let_def case_prod_beta)

lemma jobRuns_member:
  assumes "x \<in> set (jobRunsFrom envs timeout tr i js)"
  shows "\<exists>e j. j \<in> set js \<and> x = runJob e j timeout tr"
  using assms
  by (auto simp: jobRunsFrom_def dest!: set_takeWhileD set_zip_rightD)

lemma jobRuns_length: "length (jobRunsFrom envs timeout tr i js) \<le> length js"
  by (induction js arbitrary: i) (auto simp: jobRunsFrom_Cons)

text \<open>Every run is exactly one of a success, an interruption and a failure.\<close>

lemma countRuns_partition:
  "\<forall>x \<in> set rs. \<exists>e j. x = runJob e j timeout tr \<Longrightarrow>
   countRuns jr_success rs + countRuns jr_interrupted rs + countRuns jr_failed rs = length rs"
proof (induction rs)
  case Nil
  then show ?case by simp
next
  case (Cons x rs)
  then obtain e j where "x = runJob e j timeout tr" by auto
  with Cons rsync.trichotomy [of e j timeout tr] show ?case by auto
qed

lemma jobRuns_partition:
  "countRuns jr_success (jobRuns env cfg timeout tr) + countRuns jr_interrupted (jobRuns env cfg timeout tr)
     + countRuns jr_failed (jobRuns env cfg timeout tr) = length (jobRuns env cfg timeout tr)"
  unfolding jobRuns_def
  by (rule countRuns_partition [of _ timeout tr]) (blast dest: jobRuns_member)

lemma countRuns_zero_iff: "countRuns P rs = 0 \<longleftrightarrow> (\<forall>x \<in> set rs. \<not> P (fst x))"
  by (auto simp: countRuns_def filter_empty_conv)

text \<open>The job records of a pass hold an error record exactly when a job failed.\<close>

lemma runPass_error_records:
  "list_ex isErrorRec (snd (runPass env cfg timeout tr trig)) \<longleftrightarrow>
     0 < pr_failed (fst (runPass env cfg timeout tr trig))"
proof -
  have "list_ex isErrorRec (concat (map snd rs)) \<longleftrightarrow> 0 < countRuns jr_failed rs"
    if "\<forall>x \<in> set rs. \<exists>e j. x = runJob e j timeout tr" for rs
    using that
  proof (induction rs)
    case Nil
    then show ?case by simp
  next
    case (Cons x rs)
    then obtain e j where "x = runJob e j timeout tr" by auto
    with Cons rsync.error_iff_failed [of e j timeout tr] show ?case by auto
  qed
  moreover have "\<forall>x \<in> set (jobRuns env cfg timeout tr). \<exists>e j. x = runJob e j timeout tr"
    unfolding jobRuns_def by (blast dest: jobRuns_member)
  ultimately show ?thesis by (simp add: runPass_counts)
qed

section \<open>The interface of a verdict\<close>

text \<open>
  What the health marker and the last-run record rely on: a result with a failure is
  always published, and as unhealthy.
\<close>

locale pass_verdict =
  fixes isHealthy :: "'r \<Rightarrow> bool" and isVouchable :: "'r \<Rightarrow> bool" and cutShort :: "'r \<Rightarrow> bool"
  assumes unhealthy_vouchable: "\<not> isHealthy r \<Longrightarrow> isVouchable r"
    and complete_vouchable: "\<not> cutShort r \<Longrightarrow> isVouchable r"
    and unvouchable_iff: "\<not> isVouchable r \<longleftrightarrow> isHealthy r \<and> cutShort r"
begin

lemma published_verdict: "isVouchable r \<longleftrightarrow> \<not> cutShort r \<or> \<not> isHealthy r"
  using unvouchable_iff [of r] by blast

end

interpretation passes: pass_verdict healthy vouchable pr_interrupted
  by unfold_locales (auto simp: healthy_def vouchable_def)

section \<open>Properties\<close>

text \<open>C15 (functional): a pass runs the jobs in file order, each once, up to the first that
  finds the context cancelled; its counters are exact (successes with the skipped ones
  among them, skips, failures), no job is counted twice, and it is cut short exactly when
  some job was not run or was interrupted.\<close>

theorem runPass_counters:
  fixes env cfg timeout tr trig
  defines "rs \<equiv> jobRuns env cfg timeout tr" and "r \<equiv> fst (runPass env cfg timeout tr trig)"
  shows "pr_ok r = countRuns jr_success rs \<and> pr_emptySkipped r = countRuns jr_skipped rs
    \<and> pr_failed r = countRuns jr_failed rs \<and> pr_total r = length (Jobs cfg)
    \<and> (pr_interrupted r \<longleftrightarrow> pr_ok r + pr_failed r < pr_total r)
    \<and> pr_ok r + pr_failed r \<le> pr_total r"
proof -
  have "length rs \<le> length (Jobs cfg)" unfolding rs_def jobRuns_def by (rule jobRuns_length)
  with jobRuns_partition [of env cfg timeout tr] show ?thesis
    by (auto simp: rs_def r_def runPass_counts)
qed

text \<open>What a pass logs. The job records hold an error exactly when a job failed,
  and the report ends the pass with the heartbeat record, at level info, exactly when every
  job was run to its end.\<close>

lemma pass_records:
  fixes env cfg timeout tr trig
  defines "r \<equiv> fst (runPass env cfg timeout tr trig)" and "lg \<equiv> snd (runPass env cfg timeout tr trig)"
  shows "(list_ex isErrorRec lg \<longleftrightarrow> \<not> healthy r)
    \<and> list_ex isErrorRec (reportPass r) = False
    \<and> (reportPass r = [slogInfo heartbeatMsg (passAttrs r)] \<longleftrightarrow> pr_ok r + pr_failed r = pr_total r)"
proof -
  have len: "length (jobRuns env cfg timeout tr) \<le> length (Jobs cfg)"
    unfolding jobRuns_def by (rule jobRuns_length)
  have err: "list_ex isErrorRec lg \<longleftrightarrow> \<not> healthy r"
    unfolding lg_def r_def healthy_def runPass_error_records by simp
  have "pr_interrupted r \<longleftrightarrow> pr_ok r + pr_failed r \<noteq> pr_total r"
    using len jobRuns_partition [of env cfg timeout tr] by (auto simp: r_def runPass_counts)
  with err show ?thesis by (simp add: reportPass_def slogInfo_def slogWarn_def isErrorRec_def)
qed

end
