(* ===== verification/Settings.thy ===== *)
theory Settings
  imports Logs RsyncArgs
begin

text \<open>
  The environment settings (config.go): \<open>setupLogger\<close>, \<open>configPath\<close>,
  \<open>loadSyncTimeout\<close>, \<open>loadTransport\<close> and \<open>loadInterval\<close>.

  The packages envx and scheduler are not part of the repository: their functions are the
  fields of \<open>envLib\<close>, arguments of the definitions that call them. \<open>env_lower\<close> is the
  lower-case mapping of the runes from \<open>0x80\<close> up, the Unicode table behind
  \<open>strings.ToLower\<close>.
\<close>

section \<open>Definitions\<close>

datatype schedMode = ModeBuiltin | ModeExternal

record envLib =
  env_string :: "string \<Rightarrow> string"
  env_bool :: "string \<Rightarrow> bool \<Rightarrow> bool"
  env_duration :: "string \<Rightarrow> int \<Rightarrow> int"
  env_parseInterval :: "string \<Rightarrow> int \<Rightarrow> int \<times> schedMode"
  env_lower :: "nat \<Rightarrow> nat"

text \<open>Durations are in nanoseconds.\<close>

definition timeMinute :: int where
  "timeMinute = 60 * 1000000000"

definition timeHour :: int where
  "timeHour = 60 * timeMinute"

definition defaultConfigPath :: string where
  "defaultConfigPath = ''/config/config.yaml''"

definition defaultSyncTimeout :: int where
  "defaultSyncTimeout = 10 * timeMinute"

definition defaultInterval :: int where
  "defaultInterval = 6 * timeHour"

definition socketPath :: string where
  "socketPath = ''/tmp/docker-rsync-scheduler.sock''"

definition stampPath :: string where
  "stampPath = ''/data/.docker-rsync-scheduler-last-run''"

definition normWord :: "envLib \<Rightarrow> string \<Rightarrow> string" where
  "normWord lib raw = goToLower (env_lower lib) (trimSpace raw)"

definition setupLogger :: "envLib \<Rightarrow> logLevel \<times> logRec list" where
  "setupLogger lib =
     (let raw = env_string lib ''LOG_LEVEL''; w = normWord lib raw
      in if w \<in> {[], ''info''} then (LevelInfo, [])
         else if w = ''debug'' then (LevelDebug, [])
         else if w \<in> {''warn'', ''warning''} then (LevelWarn, [])
         else if w = ''error'' then (LevelError, [])
         else (LevelInfo, [slogWarn ''unrecognized LOG_LEVEL, using info'' [(''value'', AStr raw)]]))"

text \<open>\<open>cmp.Or\<close> on strings: the first non-empty argument.\<close>

definition cmpOr :: "string \<Rightarrow> string \<Rightarrow> string" where
  "cmpOr a b = (if a \<noteq> [] then a else b)"

definition configPath :: "envLib \<Rightarrow> string" where
  "configPath lib = cmpOr (env_string lib ''CONFIG_PATH'') defaultConfigPath"

definition loadSyncTimeout :: "envLib \<Rightarrow> int \<times> logRec list" where
  "loadSyncTimeout lib =
     (let d = env_duration lib ''SYNC_TIMEOUT'' defaultSyncTimeout
      in if d \<le> 0
         then (defaultSyncTimeout,
               [slogWarn ''SYNC_TIMEOUT must be positive, using default''
                  [(''value'', AStr (durationString d)), (''default'', AInt defaultSyncTimeout)]])
         else (d, []))"

definition loadTransport :: "envLib \<Rightarrow> hostKeyMode \<Rightarrow> transport \<times> logRec list" where
  "loadTransport lib hk =
     (let tr = \<lparr>compress = [], hostKeys = hk, acls = env_bool lib ''SYNC_ACLS'' False,
                xattrs = env_bool lib ''SYNC_XATTRS'' False\<rparr>;
          raw = env_string lib ''SYNC_COMPRESS''; v = normWord lib raw
      in if v \<in> {[], ''off'', ''disabled'', ''no'', ''false'', ''0''} then (tr, [])
         else if v \<in> {''on'', ''yes'', ''true'', ''1'', compressionAuto}
           then (tr\<lparr>compress := compressionAuto\<rparr>, [])
         else if v \<in> {''zstd'', ''lz4'', ''zlib''} then (tr\<lparr>compress := v\<rparr>, [])
         else (tr, [slogWarn ''unrecognized SYNC_COMPRESS, compression stays off''
                      [(''value'', AStr raw), (''accepted'', AStr ''off|on|auto|zstd|lz4|zlib'')]]))"

definition loadInterval :: "envLib \<Rightarrow> int \<times> bool" where
  "loadInterval lib =
     (case env_parseInterval lib (env_string lib ''SYNC_INTERVAL'') defaultInterval of
        (interval, mode) \<Rightarrow> (interval, mode = ModeBuiltin))"

section \<open>Lemmas\<close>

lemma loadSyncTimeout_positive: "0 < fst (loadSyncTimeout lib)"
  by (simp add: loadSyncTimeout_def defaultSyncTimeout_def timeMinute_def Let_def)

lemma loadTransport_known: "knownCompression (compress (fst (loadTransport lib hk)))"
  by (auto simp: loadTransport_def knownCompression_def compressionAuto_def Let_def)

lemma loadTransport_hostKeys: "hostKeys (fst (loadTransport lib hk)) = hk"
  by (simp add: loadTransport_def Let_def)

text \<open>On ASCII words, normalisation does not depend on the Unicode table.\<close>

definition lowerByte :: "char \<Rightarrow> char" where
  "lowerByte c = (if 65 \<le> byteOf c \<and> byteOf c \<le> 90 then char_of (byteOf c + 32) else c)"

definition isAscii :: "string \<Rightarrow> bool" where
  "isAscii s \<longleftrightarrow> (\<forall>c \<in> set s. byteOf c < 0x80)"

lemma goRunes_isAscii: "isAscii s \<Longrightarrow> goRunes s = map byteOf s"
  by (induction s) (auto simp: isAscii_def goRunes_nonempty)

lemma goToLower_isAscii:
  assumes "isAscii s"
  shows "goToLower tbl s = map lowerByte s"
proof -
  have "concat (map (\<lambda>c. encodeRune (lowerRune tbl (byteOf c))) s) = map lowerByte s"
    using assms by (induction s) (auto simp: isAscii_def encodeRune_def lowerRune_def lowerByte_def)
  with assms show ?thesis by (simp add: goToLower_def goRunes_isAscii comp_def)
qed

section \<open>A concrete environment\<close>

definition sampleEnv :: envLib where
  "sampleEnv =
     \<lparr>env_string = (\<lambda>k. if k = ''SYNC_COMPRESS'' then '' ZSTD '' else []), env_bool = (\<lambda>k d. d),
      env_duration = (\<lambda>k d. d), env_parseInterval = (\<lambda>s d. (d, ModeBuiltin)), env_lower = id\<rparr>"

end
