(* ===== verification/Sha256.thy ===== *)
theory Sha256
  imports GoText
begin

text \<open>
  \<open>sha256.Sum256\<close> of the Go standard library: the digest of a config document that the
  daemon compares to decide whether the advisories are due again. FIPS 180-4 over 32-bit
  words; the digest is the 32 bytes of the eight state words.
\<close>

unbundle bit_operations_syntax

definition shaK :: "32 word list" where
  "shaK =
    [0x428a2f98, 0x71374491, 0xb5c0fbcf, 0xe9b5dba5, 0x3956c25b, 0x59f111f1, 0x923f82a4, 0xab1c5ed5,
     0xd807aa98, 0x12835b01, 0x243185be, 0x550c7dc3, 0x72be5d74, 0x80deb1fe, 0x9bdc06a7, 0xc19bf174,
     0xe49b69c1, 0xefbe4786, 0x0fc19dc6, 0x240ca1cc, 0x2de92c6f, 0x4a7484aa, 0x5cb0a9dc, 0x76f988da,
     0x983e5152, 0xa831c66d, 0xb00327c8, 0xbf597fc7, 0xc6e00bf3, 0xd5a79147, 0x06ca6351, 0x14292967,
     0x27b70a85, 0x2e1b2138, 0x4d2c6dfc, 0x53380d13, 0x650a7354, 0x766a0abb, 0x81c2c92e, 0x92722c85,
     0xa2bfe8a1, 0xa81a664b, 0xc24b8b70, 0xc76c51a3, 0xd192e819, 0xd6990624, 0xf40e3585, 0x106aa070,
     0x19a4c116, 0x1e376c08, 0x2748774c, 0x34b0bcb5, 0x391c0cb3, 0x4ed8aa4a, 0x5b9cca4f, 0x682e6ff3,
     0x748f82ee, 0x78a5636f, 0x84c87814, 0x8cc70208, 0x90befffa, 0xa4506ceb, 0xbef9a3f7, 0xc67178f2]"

definition shaInit :: "32 word list" where
  "shaInit =
    [0x6a09e667, 0xbb67ae85, 0x3c6ef372, 0xa54ff53a, 0x510e527f, 0x9b05688c, 0x1f83d9ab, 0x5be0cd19]"

definition wordOfBytes :: "string \<Rightarrow> 32 word" where
  "wordOfBytes bs = foldl (\<lambda>w b. w * 256 + word_of_nat (byteOf b)) 0 bs"

definition bytesOfWord :: "32 word \<Rightarrow> string" where
  "bytesOfWord w = map (\<lambda>k. char_of (unat (take_bit 8 (drop_bit k w)))) [24, 16, 8, 0]"

definition bytesOfLen :: "nat \<Rightarrow> string" where
  "bytesOfLen n = map (\<lambda>k. char_of ((n div 256 ^ k) mod 256)) [7, 6, 5, 4, 3, 2, 1, 0]"

text \<open>The message, a one bit, zeros up to 56 modulo 64, and the length in bits.\<close>

definition shaPad :: "string \<Rightarrow> string" where
  "shaPad m =
     m @ [CHR 0x80] @ replicate ((119 - length m mod 64) mod 64) (CHR 0x00) @ bytesOfLen (8 * length m)"

text \<open>The message schedule, extended one word at a time; the list is kept newest first.\<close>

fun shaSchedule :: "nat \<Rightarrow> 32 word list \<Rightarrow> 32 word list" where
  "shaSchedule 0 ws = ws"
| "shaSchedule (Suc k) ws =
     (let w15 = ws ! 14; w2 = ws ! 1;
          s0 = word_rotr 7 w15 XOR word_rotr 18 w15 XOR drop_bit 3 w15;
          s1 = word_rotr 17 w2 XOR word_rotr 19 w2 XOR drop_bit 10 w2
      in shaSchedule k ((ws ! 15 + s0 + ws ! 6 + s1) # ws))"

definition shaRound :: "32 word list \<Rightarrow> 32 word \<times> 32 word \<Rightarrow> 32 word list" where
  "shaRound st kw =
     (case st of
        [a, b, c, d, e, f, g, h] \<Rightarrow>
          (let s1 = word_rotr 6 e XOR word_rotr 11 e XOR word_rotr 25 e;
               ch = (e AND f) XOR (NOT e AND g);
               t1 = h + s1 + ch + fst kw + snd kw;
               s0 = word_rotr 2 a XOR word_rotr 13 a XOR word_rotr 22 a;
               maj = (a AND b) XOR (a AND c) XOR (b AND c)
           in [t1 + s0 + maj, a, b, c, d + t1, e, f, g])
      | _ \<Rightarrow> st)"

definition shaBlock :: "32 word list \<Rightarrow> string \<Rightarrow> 32 word list" where
  "shaBlock st blk =
     (let w0 = map (\<lambda>i. wordOfBytes (take 4 (drop (4 * i) blk))) [0..<16];
          ws = rev (shaSchedule 48 (rev w0))
      in map2 (+) st (foldl shaRound st (zip shaK ws)))"

function shaBlocks :: "32 word list \<Rightarrow> string \<Rightarrow> 32 word list" where
  "shaBlocks st m = (if length m < 64 then st else shaBlocks (shaBlock st (take 64 m)) (drop 64 m))"
  by pat_completeness auto
termination
  by (relation "measure (\<lambda>(st, m). length m)") auto

declare shaBlocks.simps [simp del]

definition sum256 :: "string \<Rightarrow> string" where
  "sum256 m = concat (map bytesOfWord (shaBlocks shaInit (shaPad m)))"

section \<open>The digest is 32 bytes\<close>

lemma length_shaRound: "length (shaRound st kw) = length st"
  by (auto simp: shaRound_def Let_def split: list.split)

lemma length_foldl_shaRound: "length (foldl shaRound st kws) = length st"
  by (induction kws arbitrary: st) (simp_all add: length_shaRound)

lemma length_shaBlock: "length (shaBlock st blk) = length st"
  by (simp add: shaBlock_def Let_def length_foldl_shaRound)

lemma length_shaBlocks: "length (shaBlocks st m) = length st"
proof (induction st m rule: shaBlocks.induct)
  case (1 st m)
  then show ?case by (cases "length m < 64") (simp_all add: shaBlocks.simps [of st m] length_shaBlock)
qed

lemma length_concat_bytesOfWord: "length (concat (map bytesOfWord ws)) = 4 * length ws"
  by (induction ws) (simp_all add: bytesOfWord_def)

lemma length_sum256: "length (sum256 m) = 32"
  by (simp add: sum256_def length_concat_bytesOfWord length_shaBlocks shaInit_def)

text \<open>The padded message fills whole blocks, so no byte of the document is left out.\<close>

lemma shaPad_blocks: "64 dvd length (shaPad m)"
proof -
  define r where "r = length m mod 64"
  define x where "x = (119 - r) mod 64"
  have r: "r < 64" by (simp add: r_def)
  have "(r + (9 + x)) mod 64 = 0"
  proof (cases "r < 56")
    case True
    then have "x = 55 - r" by (simp add: x_def le_mod_geq)
    with True show ?thesis by simp
  next
    case False
    with r have "x = 119 - r" by (simp add: x_def)
    with r False show ?thesis by simp
  qed
  moreover have "(length m + (9 + x)) mod 64 = (r + (9 + x)) mod 64"
    unfolding r_def by (rule mod_add_left_eq [symmetric])
  ultimately have "(length m + (9 + x)) mod 64 = 0" by simp
  moreover have "length (shaPad m) = length m + (9 + x)"
    by (simp add: shaPad_def bytesOfLen_def x_def r_def)
  ultimately show ?thesis by (simp add: dvd_eq_mod_eq_0)
qed

end
