(* ===== verification/Load.thy ===== *)
theory Load
  imports Settings Sha256
begin

text \<open>
  Loading the job file (config.go): \<open>parseConfig\<close>, \<open>loadConfig\<close> and \<open>loadedConfig\<close>.

  The YAML packages are not part of the repository: \<open>yamlLib\<close> carries the two raw-text
  checks of yamlenv and the unmarshaller, arguments of the definitions that call them.
\<close>

section \<open>Definitions\<close>

record yamlLib =
  y_single :: "string \<Rightarrow> goerr option"
  y_unknown :: "string \<Rightarrow> goerr option"
  y_unmarshal :: "string \<Rightarrow> goerr + config"

record loadedConfig =
  lc_cfg :: config
  lc_digest :: string

definition parseConfig :: "yamlLib \<Rightarrow> string \<Rightarrow> goerr + config" where
  "parseConfig y data =
     (case y_single y data of
        Some err \<Rightarrow> Inl (ErrWrap ''parse config'' [err])
      | None \<Rightarrow>
          (case y_unknown y data of
             Some err \<Rightarrow> Inl (ErrWrap ''parse config'' [err])
           | None \<Rightarrow>
               (case y_unmarshal y data of
                  Inl err \<Rightarrow> Inl (ErrWrap ''parse config'' [err])
                | Inr cfg \<Rightarrow> Inr cfg)))"

definition loadConfig :: "envLib \<Rightarrow> yamlLib \<Rightarrow> opener \<Rightarrow> loadErr + loadedConfig" where
  "loadConfig lib y fs =
     (case readCappedConfig fs (configPath lib) of
        Inl err \<Rightarrow> Inl (LoadRead err)
      | Inr data \<Rightarrow>
          (case parseConfig y data of
             Inl err \<Rightarrow> Inl (LoadParse err)
           | Inr cfg \<Rightarrow>
               (case config_validate fs cfg of
                  Some err \<Rightarrow> Inl (LoadValidate err)
                | None \<Rightarrow> Inr \<lparr>lc_cfg = cfg, lc_digest = sum256 data\<rparr>)))"

section \<open>Lemmas\<close>

lemma loadConfig_Inr:
  assumes "loadConfig lib y fs = Inr lc"
  obtains f where "regularAt fs (configPath lib) f" "of_err f = None" "length (of_data f) \<le> configCapBytes"
    "parseConfig y (of_data f) = Inr (lc_cfg lc)" "validConfig fs (lc_cfg lc)"
    "lc_digest lc = sum256 (of_data f)"
proof -
  from assms obtain data where rd: "readCappedConfig fs (configPath lib) = Inr data"
    and rest: "parseConfig y data = Inr (lc_cfg lc)" "config_validate fs (lc_cfg lc) = None"
      "lc_digest lc = sum256 data"
    by (auto simp: loadConfig_def split: sum.splits option.splits)
  from rd obtain f where "regularAt fs (configPath lib) f" "of_err f = None" "data = of_data f"
    "length data \<le> configCapBytes"
    unfolding readCapped_whole by blast
  with rest that show ?thesis by (simp add: config_validate_iff)
qed

lemma loadConfig_valid: "loadConfig lib y fs = Inr lc \<Longrightarrow> validConfig fs (lc_cfg lc)"
  by (erule loadConfig_Inr)

section \<open>Properties\<close>

text \<open>C25 (functional): a config is loaded exactly when the configured file is regular,
  readable to its end and at most 1 MiB, its text parses, and the parsed job list meets the
  whole contract; the loaded value is that job list with the SHA-256 of the bytes read.\<close>

theorem loadConfig_ok_iff:
  "loadConfig lib y fs = Inr lc \<longleftrightarrow>
     (\<exists>f. regularAt fs (configPath lib) f \<and> of_err f = None \<and> length (of_data f) \<le> configCapBytes
        \<and> parseConfig y (of_data f) = Inr (lc_cfg lc) \<and> validConfig fs (lc_cfg lc)
        \<and> lc_digest lc = sum256 (of_data f))"
proof
  assume "loadConfig lib y fs = Inr lc"
  then show "\<exists>f. regularAt fs (configPath lib) f \<and> of_err f = None \<and> length (of_data f) \<le> configCapBytes
        \<and> parseConfig y (of_data f) = Inr (lc_cfg lc) \<and> validConfig fs (lc_cfg lc)
        \<and> lc_digest lc = sum256 (of_data f)"
    by (rule loadConfig_Inr) blast
next
  assume "\<exists>f. regularAt fs (configPath lib) f \<and> of_err f = None \<and> length (of_data f) \<le> configCapBytes
        \<and> parseConfig y (of_data f) = Inr (lc_cfg lc) \<and> validConfig fs (lc_cfg lc)
        \<and> lc_digest lc = sum256 (of_data f)"
  then obtain f where f: "regularAt fs (configPath lib) f" "of_err f = None" "length (of_data f) \<le> configCapBytes"
    and r: "parseConfig y (of_data f) = Inr (lc_cfg lc)" "validConfig fs (lc_cfg lc)" "lc_digest lc = sum256 (of_data f)"
    by blast
  from f have "readCappedConfig fs (configPath lib) = Inr (of_data f)" unfolding readCapped_whole by blast
  with r show "loadConfig lib y fs = Inr lc"
    by (cases lc) (simp add: loadConfig_def config_validate_iff [THEN iffD2])
qed

end
