(* ===== verification/Health.thy ===== *)
theory Health
  imports Pass Load
begin

text \<open>
  Health (health.go): \<open>applyPassHealth\<close> and \<open>probeOptions\<close>.

  The package health is not part of the repository. A marker is a \<open>bool\<close>, whether its
  file exists; \<open>l_cleanup\<close> is \<open>Marker.Cleanup\<close>. A latch is a value of a type variable
  \<open>'l\<close> with the operations the program calls, \<open>NewLatch\<close>, \<open>Set\<close> and \<open>BeginDrain\<close>,
  and two observations, whether its marker is up and whether it drains; \<open>latchLaws\<close>
  states what the package documents of them. \<open>Lease.Duration\<close> is the argument \<open>leaseDuration\<close>.
\<close>

section \<open>Definitions\<close>

record 'l latchLib =
  l_cleanup :: "bool \<Rightarrow> bool"
  l_new :: "bool \<Rightarrow> 'l"
  l_set :: "'l \<Rightarrow> bool \<Rightarrow> 'l"
  l_beginDrain :: "'l \<Rightarrow> 'l"
  l_up :: "'l \<Rightarrow> bool"
  l_draining :: "'l \<Rightarrow> bool"

definition applyPassHealth :: "'l latchLib \<Rightarrow> 'l \<Rightarrow> passResult \<Rightarrow> 'l" where
  "applyPassHealth L latch result =
     (if vouchable result then l_set L latch (healthy result) else latch)"

record lease =
  ls_interval :: int
  ls_cycles :: nat
  ls_timeout :: int
  ls_attempts :: nat

text \<open>The probe options: no option, or the maximum age of the marker.\<close>

definition probeOptions ::
  "(lease \<Rightarrow> int) \<Rightarrow> envLib \<Rightarrow> yamlLib \<Rightarrow> opener \<Rightarrow> int option" where
  "probeOptions leaseDuration lib y fs =
     (case loadInterval lib of
        (interval, scheduleEnabled) \<Rightarrow>
          if \<not> scheduleEnabled then None
          else (case readCappedConfig fs (configPath lib) of
                  Inl _ \<Rightarrow> None
                | Inr data \<Rightarrow>
                    (case parseConfig y data of
                       Inl _ \<Rightarrow> None
                     | Inr cfg \<Rightarrow>
                         Some (leaseDuration
                           \<lparr>ls_interval = interval, ls_cycles = 2, ls_timeout = fst (loadSyncTimeout lib),
                            ls_attempts = length (Jobs cfg)\<rparr>))))"

section \<open>The documented laws of a latch\<close>

definition latchLaws :: "'l latchLib \<Rightarrow> bool" where
  "latchLaws L \<longleftrightarrow>
     (\<forall>m. \<not> l_cleanup L m)
     \<and> (\<forall>m. \<not> l_draining L (l_new L m))
     \<and> (\<forall>l b. l_draining L (l_set L l b) = l_draining L l)
     \<and> (\<forall>l b. l_up L (l_set L l b) = (b \<and> \<not> l_draining L l))
     \<and> (\<forall>l. l_draining L (l_beginDrain L l) \<and> \<not> l_up L (l_beginDrain L l))"

text \<open>A latch that satisfies them: the marker and the drain flag.\<close>

definition pairLatch :: "(bool \<times> bool) latchLib" where
  "pairLatch =
     \<lparr>l_cleanup = (\<lambda>_. False), l_new = (\<lambda>m. (m, False)), l_set = (\<lambda>(up, dr) b. (b \<and> \<not> dr, dr)), l_beginDrain = (\<lambda>_. (False, True)),
      l_up = fst, l_draining = snd\<rparr>"

lemma latchLaws_pairLatch: "latchLaws pairLatch"
  by (simp add: latchLaws_def pairLatch_def)

lemma applyPassHealth_draining:
  "latchLaws L \<Longrightarrow> l_draining L (applyPassHealth L l r) = l_draining L l"
  by (simp add: applyPassHealth_def latchLaws_def)

lemma applyPassHealth_up:
  assumes "latchLaws L"
  shows "l_up L (applyPassHealth L l r) \<longleftrightarrow>
     (if vouchable r then healthy r \<and> \<not> l_draining L l else l_up L l)"
  using assms by (simp add: applyPassHealth_def latchLaws_def)

section \<open>Properties\<close>

text \<open>C39 (functional): the healthcheck's deadline. It is armed exactly in built-in mode with a
  job file that can be read and parsed, and then it is, by the documented formula of
  \<open>Lease.Duration\<close>, two intervals plus one per-job timeout for every job.\<close>

theorem probeOptions_deadline:
  assumes "\<forall>l. leaseDuration l = int (ls_cycles l) * ls_interval l + int (ls_attempts l) * ls_timeout l"
    and "loadInterval lib = (interval, enabled)"
  shows "probeOptions leaseDuration lib y fs = Some d \<longleftrightarrow>
      enabled \<and> (\<exists>data cfg. readCappedConfig fs (configPath lib) = Inr data \<and> parseConfig y data = Inr cfg
         \<and> d = 2 * interval + int (length (Jobs cfg)) * fst (loadSyncTimeout lib))"
  using assms by (auto simp: probeOptions_def split: sum.splits)

definition sampleYaml :: yamlLib where
  "sampleYaml = \<lparr>y_single = (\<lambda>d. None), y_unknown = (\<lambda>d. None), y_unmarshal = (\<lambda>d. Inr \<lparr>Jobs = [sampleJob]\<rparr>)\<rparr>"

definition sampleLease :: "lease \<Rightarrow> int" where
  "sampleLease l = int (ls_cycles l) * ls_interval l + int (ls_attempts l) * ls_timeout l"

lemma sampleFs_read: "readCappedConfig sampleFs p = Inr ''key''"
  unfolding readCapped_whole
  by (rule exI [of _ "sampleFile ''key''"])
     (simp add: sampleFs_def regularAt_def sampleFile_def configCapBytes_def)

lemma sampleYaml_parse: "parseConfig sampleYaml d = Inr \<lparr>Jobs = [sampleJob]\<rparr>"
  by (simp add: parseConfig_def sampleYaml_def)

theorem probeOptions_deadline_witness:
  "probeOptions sampleLease sampleEnv sampleYaml sampleFs = Some (2 * 21600000000000 + 600000000000)"
proof -
  have i: "loadInterval sampleEnv = (21600000000000, True)"
    by (simp add: loadInterval_def sampleEnv_def defaultInterval_def timeHour_def timeMinute_def)
  have t: "fst (loadSyncTimeout sampleEnv) = 600000000000"
    by (simp add: loadSyncTimeout_def sampleEnv_def defaultSyncTimeout_def timeMinute_def Let_def)
  show ?thesis
    by (subst probeOptions_deadline [OF _ i])
       (simp_all add: sampleLease_def sampleFs_read sampleYaml_parse t)
qed

end
