(* ===== verification/Advise.thy ===== *)
theory Advise
  imports Logs Settings
begin

text \<open>
  The advisories on an accepted config (config.go): \<open>adviseConfig\<close>,
  \<open>warnInertSettings\<close>, \<open>warnSharedDestinations\<close>, \<open>overlapComponents\<close>,
  \<open>overlapsAny\<close> and \<open>warnConflictingTree\<close>.

  \<open>pathinside.Root(r).Contains(p)\<close> is code of another module: it is the argument
  \<open>contains r p\<close>. \<open>slices.SortFunc\<close> is not a stable sort and leaves the order of equal
  elements open: it is the argument \<open>sortFn\<close>, given the comparison; the properties that
  depend on it assume no more than its documentation, a sorted permutation.
\<close>

section \<open>Data\<close>

record destJob =
  d_name :: string
  d_raw :: string
  d_path :: string
  d_key :: string
  d_del :: bool

type_synonym containsFn = "string \<Rightarrow> string \<Rightarrow> bool"
type_synonym sortFunc = "(destJob \<Rightarrow> destJob \<Rightarrow> int) \<Rightarrow> destJob list \<Rightarrow> destJob list"

section \<open>Overlap components\<close>

definition overlapsAny :: "containsFn \<Rightarrow> destJob list \<Rightarrow> string \<Rightarrow> bool" where
  "overlapsAny contains members path =
     list_ex (\<lambda>m. contains (d_path m) path \<or> contains path (d_path m)) members"

text \<open>One pass of the inner \<open>for k\<close> loop: the indices left, the component, the \<open>taken\<close>
  marks and \<open>grew\<close>.\<close>

fun growPass ::
  "containsFn \<Rightarrow> destJob list \<Rightarrow> nat list \<Rightarrow> destJob list \<Rightarrow> bool list \<Rightarrow> bool
     \<Rightarrow> destJob list \<times> bool list \<times> bool" where
  "growPass contains grp [] component taken grew = (component, taken, grew)"
| "growPass contains grp (k # ks) component taken grew =
     (if taken ! k \<or> \<not> overlapsAny contains component (d_path (grp ! k))
      then growPass contains grp ks component taken grew
      else growPass contains grp ks (component @ [grp ! k]) (taken[k := True]) True)"

definition mark :: "bool list \<Rightarrow> nat list \<Rightarrow> bool list" where
  "mark taken ns = foldl (\<lambda>t n. t[n := True]) taken ns"

lemma length_mark [simp]: "length (mark taken ns) = length taken"
  unfolding mark_def by (induction ns arbitrary: taken) auto

lemma nth_update_True: "k < length t \<Longrightarrow> t[a := True] ! k \<longleftrightarrow> t ! k \<or> k = a"
  by (cases "a < length t") (auto simp: nth_list_update list_update_beyond)

lemma nth_mark: "k < length taken \<Longrightarrow> mark taken ns ! k = (taken ! k \<or> k \<in> set ns)"
  unfolding mark_def
  by (induction ns arbitrary: taken) (auto simp: nth_update_True)

text \<open>What a pass does: it appends free elements one by one, each marked, and reports
  whether there were any.\<close>

lemma growPass_appends:
  assumes "\<forall>k \<in> set ks. k < length taken" and "growPass contains grp ks component taken grew = (c', t', g')"
  shows "\<exists>ns. c' = component @ map (nth grp) ns \<and> t' = mark taken ns \<and> distinct ns
    \<and> (\<forall>n \<in> set ns. n \<in> set ks \<and> \<not> taken ! n) \<and> (g' \<longleftrightarrow> grew \<or> ns \<noteq> [])"
  using assms
proof (induction ks arbitrary: component taken grew)
  case Nil
  then show ?case by (intro exI [of _ "[]"]) (simp add: mark_def)
next
  case (Cons k ks)
  show ?case
  proof (cases "taken ! k \<or> \<not> overlapsAny contains component (d_path (grp ! k))")
    case True
    with Cons.prems(2) have eq: "growPass contains grp ks component taken grew = (c', t', g')" by simp
    from Cons.prems(1) have "\<forall>k \<in> set ks. k < length taken" by simp
    from Cons.IH [OF this eq] show ?thesis by fastforce
  next
    case False
    with Cons.prems(2) have
      eq: "growPass contains grp ks (component @ [grp ! k]) (taken[k := True]) True = (c', t', g')" by simp
    from Cons.prems(1) have lt: "\<forall>k \<in> set ks. k < length (taken[k := True])" by simp
    from Cons.IH [of "taken[k := True]", OF _ eq] Cons.prems(1) obtain ns where
      ns: "c' = (component @ [grp ! k]) @ map (nth grp) ns" "t' = mark (taken[k := True]) ns" "distinct ns"
        "\<forall>n \<in> set ns. n \<in> set ks \<and> \<not> taken[k := True] ! n" "g'"
      by auto
    have k: "k < length taken" using Cons.prems(1) by simp
    have "k \<notin> set ns" using ns(4) k by (metis nth_list_update_eq)
    moreover have "\<forall>n \<in> set ns. \<not> taken ! n"
      using ns(4) k by (metis nth_list_update_neq nth_list_update_eq)
    ultimately show ?thesis
      using ns False by (intro exI [of _ "k # ns"]) (auto simp: mark_def)
  qed
qed

definition freeCount :: "bool list \<Rightarrow> nat" where
  "freeCount taken = length (filter (\<lambda>t. \<not> t) taken)"

lemma freeCount_append: "freeCount (a @ b # c) = freeCount a + (if b then 0 else 1) + freeCount c"
  by (simp add: freeCount_def)

lemma freeCount_update:
  assumes "k < length t"
  shows "freeCount t = freeCount (t[k := True]) + (if t ! k then 0 else 1)"
proof -
  have "freeCount t = freeCount (take k t @ t ! k # drop (Suc k) t)"
    using id_take_nth_drop [OF assms] by simp
  then show ?thesis
    by (simp add: upd_conv_take_nth_drop [OF assms] freeCount_append)
qed

lemma freeCount_mark_le: "freeCount (mark t ns) \<le> freeCount t"
proof (induction ns arbitrary: t)
  case Nil
  then show ?case by (simp add: mark_def)
next
  case (Cons n ns)
  have "freeCount (t[n := True]) \<le> freeCount t"
    using freeCount_update [of n t] by (cases "n < length t") (auto simp: list_update_beyond not_less)
  moreover have "mark t (n # ns) = mark (t[n := True]) ns" by (simp add: mark_def)
  ultimately show ?case using Cons.IH [of "t[n := True]"] by simp
qed

lemma freeCount_mark: "n < length t \<Longrightarrow> \<not> t ! n \<Longrightarrow> freeCount (mark t (n # ns)) < freeCount t"
  using freeCount_update [of n t] freeCount_mark_le [of "t[n := True]" ns] by (simp add: mark_def)

lemma growPass_decreases:
  assumes "growPass contains grp [0..<length grp] component taken False = (c', t', True)"
    and "length taken = length grp"
  shows "freeCount t' < freeCount taken"
proof -
  from growPass_appends [OF _ assms(1)] assms(2) obtain ns where
    ns: "t' = mark taken ns" "ns \<noteq> []" "\<forall>n \<in> set ns. n < length grp \<and> \<not> taken ! n" by fastforce
  then obtain n ms where "ns = n # ms" by (cases ns) auto
  with ns assms(2) show ?thesis using freeCount_mark [of n taken ms] by simp
qed

text \<open>The loop \<open>for grew := true; grew;\<close>. The marks are allocated with the group's
  length, which is why the pass's indices are in range.\<close>

function growLoop ::
  "containsFn \<Rightarrow> destJob list \<Rightarrow> destJob list \<Rightarrow> bool list \<Rightarrow> destJob list \<times> bool list" where
  "growLoop contains grp component taken =
     (if length taken \<noteq> length grp then (component, taken)
      else (case growPass contains grp [0..<length grp] component taken False of
              (component', taken', grew) \<Rightarrow>
                if grew then growLoop contains grp component' taken' else (component', taken')))"
  by pat_completeness auto
termination
  by (relation "measure (\<lambda>(contains, grp, component, taken). freeCount taken)")
     (auto intro!: growPass_decreases [OF sym])

declare growLoop.simps [simp del]

fun componentLoop ::
  "containsFn \<Rightarrow> destJob list \<Rightarrow> nat list \<Rightarrow> bool list \<Rightarrow> destJob list list \<Rightarrow> destJob list list" where
  "componentLoop contains grp [] taken components = components"
| "componentLoop contains grp (i # is) taken components =
     (if taken ! i then componentLoop contains grp is taken components
      else (case growLoop contains grp [grp ! i] (taken[i := True]) of
              (component, taken') \<Rightarrow>
                componentLoop contains grp is taken' (components @ [component])))"

definition overlapComponents :: "containsFn \<Rightarrow> destJob list \<Rightarrow> destJob list list" where
  "overlapComponents contains grp =
     componentLoop contains grp [0..<length grp] (replicate (length grp) False) []"

section \<open>The advisories\<close>

text \<open>The comparison of the sort: shorter path first, then the path itself.\<close>

definition cmpDest :: "destJob \<Rightarrow> destJob \<Rightarrow> int" where
  "cmpDest a b =
     (if length (d_path a) < length (d_path b) then -1
      else if length (d_path b) < length (d_path a) then 1
      else if d_path a < d_path b then -1
      else if d_path b < d_path a then 1
      else 0)"

definition sampleSize :: nat where
  "sampleSize = 3"

definition boolText :: "bool \<Rightarrow> string" where
  "boolText b = (if b then ''true'' else ''false'')"

definition sampleText :: "destJob \<Rightarrow> string" where
  "sampleText m =
     d_name m @ '' at '' @ d_path m @ '' (ssh_key '' @ d_key m @ '', delete '' @ boolText (d_del m) @ '')''"

definition sharedTreeMsg :: string where
  "sharedTreeMsg =
     ''jobs share a remote destination tree and one deletes; each pass may delete the others' files''"

definition sharedTreeHint :: string where
  "sharedTreeHint =
     ''exclude the sibling's content from the deleting job, or give each job its own remote_path''"

text \<open>\<open>None\<close> is the panic of \<open>atRisk[0]\<close> on an empty slice.\<close>

definition warnConflictingTree :: "containsFn \<Rightarrow> sortFunc \<Rightarrow> destJob list \<Rightarrow> logRec list option" where
  "warnConflictingTree contains sortFn members =
     (if length members < 2 then Some []
      else if \<not> list_ex d_del members then Some []
      else
        (let deleting = filter d_del members;
             atRisk = sortFn cmpDest (filter (\<lambda>m. overlapsAny contains deleting (d_path m)) members);
             deleters = take sampleSize (map d_name (filter d_del atRisk));
             samples = map sampleText (take (min sampleSize (length atRisk)) atRisk)
         in (case atRisk of
               [] \<Rightarrow> None
             | first # _ \<Rightarrow>
                 Some [slogWarn sharedTreeMsg
                   [(''remote_host'', AStr (d_raw first)), (''jobs'', AInt (int (length atRisk))),
                    (''deleting'', AInt (int (length deleting))),
                    (''outermost_first'', AStr (joinWith ''; '' samples)),
                    (''deletes'', AStr (joinWith '', '' deleters)), (''hint'', AStr sharedTreeHint)]])))"

definition groupKey :: "(nat \<Rightarrow> nat) \<Rightarrow> string \<Rightarrow> string" where
  "groupKey tbl host =
     (let k = goToLower tbl host
      in case parseIP host of
           Some ip \<Rightarrow> ipString ip
         | None \<Rightarrow> (let trimmed = trimSuffix k ''.'' in if containsChar trimmed dot then trimmed else k))"

definition jobKey :: "(nat \<Rightarrow> nat) \<Rightarrow> job \<Rightarrow> string" where
  "jobKey tbl j = groupKey tbl (snd (splitRemoteHost (RemoteHost j)))"

definition destOf :: "job \<Rightarrow> destJob" where
  "destOf j =
     \<lparr>d_name = Name j, d_raw = RemoteHost j, d_path = goClean (RemotePath j), d_key = SSHKey j,
      d_del = Delete j\<rparr>"

text \<open>\<open>groups[key] = append(groups[key], d)\<close> on an association list.\<close>

fun appendAt :: "string \<Rightarrow> destJob \<Rightarrow> (string \<times> destJob list) list \<Rightarrow> (string \<times> destJob list) list" where
  "appendAt k d [] = [(k, [d])]"
| "appendAt k d ((k', ds) # r) = (if k = k' then (k', ds @ [d]) # r else (k', ds) # appendAt k d r)"

definition groupJobs :: "(nat \<Rightarrow> nat) \<Rightarrow> job list \<Rightarrow> (string \<times> destJob list) list" where
  "groupJobs tbl js = foldl (\<lambda>g j. appendAt (jobKey tbl j) (destOf j) g) [] js"

text \<open>Records of several steps, in order; a panic anywhere ends the program.\<close>

fun sequenceLogs :: "logRec list option list \<Rightarrow> logRec list option" where
  "sequenceLogs [] = Some []"
| "sequenceLogs (x # xs) =
     (case x of None \<Rightarrow> None | Some l \<Rightarrow> map_option (\<lambda>r. l @ r) (sequenceLogs xs))"

definition warnSharedDestinations ::
  "containsFn \<Rightarrow> sortFunc \<Rightarrow> (nat \<Rightarrow> nat) \<Rightarrow> job list \<Rightarrow> logRec list option" where
  "warnSharedDestinations contains sortFn tbl js =
     (let groups = groupJobs tbl js
      in sequenceLogs
           (concat (map (\<lambda>k. map (warnConflictingTree contains sortFn)
                               (overlapComponents contains (case map_of groups k of None \<Rightarrow> [] | Some ds \<Rightarrow> ds)))
                     (sort (map fst groups)))))"

definition warnInertSettings :: "job \<Rightarrow> logRec list" where
  "warnInertSettings j =
     (if MaxDelete j \<noteq> None \<and> \<not> Delete j
      then [slogWarn ''max_delete set without delete:true; the cap will be ignored'' [(''job'', AStr (Name j))]]
      else [])
     @ (if (RemoteUID j = None) \<noteq> (RemoteGID j = None)
        then [slogWarn ''remote_uid/remote_gid set without its pair; --chown will be skipped''
                [(''job'', AStr (Name j)), (''remote_uid_set'', ABool (RemoteUID j \<noteq> None)),
                 (''remote_gid_set'', ABool (RemoteGID j \<noteq> None))]]
        else [])
     @ (if [] \<in> set (Excludes j)
        then [slogWarn ''empty excludes entry is ignored; an empty pattern excludes nothing''
                [(''job'', AStr (Name j))]]
        else [])
     @ concat (map (\<lambda>e. let trimmed = trimSpace e
                        in if trimmed = e then []
                           else [slogWarn ''exclude pattern has leading or trailing whitespace; rsync matches it literally''
                                   [(''job'', AStr (Name j)), (''exclude'', AStr e), (''without_whitespace'', AStr trimmed)]])
                (Excludes j))"

definition adviseConfig :: "containsFn \<Rightarrow> sortFunc \<Rightarrow> (nat \<Rightarrow> nat) \<Rightarrow> config \<Rightarrow> logRec list option" where
  "adviseConfig contains sortFn tbl cfg =
     map_option (\<lambda>l. concat (map warnInertSettings (Jobs cfg)) @ l)
       (warnSharedDestinations contains sortFn tbl (Jobs cfg))"

section \<open>Interface: an overlap relation\<close>

definition edgesIn :: "('a \<Rightarrow> 'a \<Rightarrow> bool) \<Rightarrow> 'a set \<Rightarrow> ('a \<times> 'a) set" where
  "edgesIn ov S = {(a, b). a \<in> S \<and> b \<in> S \<and> ov a b}"

definition connectedIn :: "('a \<Rightarrow> 'a \<Rightarrow> bool) \<Rightarrow> 'a set \<Rightarrow> bool" where
  "connectedIn ov S \<longleftrightarrow> (\<forall>a \<in> S. \<forall>b \<in> S. (a, b) \<in> (edgesIn ov S)\<^sup>*)"

text \<open>
  The laws of "equal or nested" that the partition rests on: the relation is symmetric.
  A set that is connected and that no overlap leaves is then the connected component of
  each of its members.
\<close>

locale overlap_relation =
  fixes ov :: "'a \<Rightarrow> 'a \<Rightarrow> bool"
  assumes ov_sym: "ov a b \<Longrightarrow> ov b a"
begin

lemma edgesIn_mono: "S \<subseteq> T \<Longrightarrow> edgesIn ov S \<subseteq> edgesIn ov T"
  by (auto simp: edgesIn_def)

lemma connectedIn_singleton: "connectedIn ov {a}"
  by (simp add: connectedIn_def)

lemma connectedIn_insert:
  assumes "connectedIn ov S" and "a \<in> S" and "ov a b"
  shows "connectedIn ov (insert b S)"
proof -
  let ?E = "edgesIn ov (insert b S)"
  have old: "(x, y) \<in> ?E\<^sup>*" if "x \<in> S" "y \<in> S" for x y
    using assms(1) that rtrancl_mono [OF edgesIn_mono [of S "insert b S"]]
    by (auto simp: connectedIn_def)
  have ab: "(a, b) \<in> ?E" and ba: "(b, a) \<in> ?E"
    using assms(2,3) ov_sym by (auto simp: edgesIn_def)
  have "(x, y) \<in> ?E\<^sup>*" if "x \<in> insert b S" "y \<in> insert b S" for x y
  proof -
    have xa: "(x, a) \<in> ?E\<^sup>*" using that(1) old assms(2) ba by auto
    have ay: "(a, y) \<in> ?E\<^sup>*" using that(2) old assms(2) ab by auto
    from xa ay show ?thesis by (rule rtrancl_trans)
  qed
  then show ?thesis by (auto simp: connectedIn_def)
qed

lemma closed_component:
  assumes "connectedIn ov S" and "S \<subseteq> U" and "a \<in> S"
    and closed: "\<And>x y. x \<in> S \<Longrightarrow> y \<in> U \<Longrightarrow> ov x y \<Longrightarrow> y \<in> S"
  shows "S = {b \<in> U. (a, b) \<in> (edgesIn ov U)\<^sup>*}"
proof
  show "S \<subseteq> {b \<in> U. (a, b) \<in> (edgesIn ov U)\<^sup>*}"
    using assms(1-3) rtrancl_mono [OF edgesIn_mono [OF assms(2)]] by (auto simp: connectedIn_def)
  have "b \<in> S" if "(a, b) \<in> (edgesIn ov U)\<^sup>*" for b
    using that
  proof (induction rule: rtrancl_induct)
    case base
    then show ?case by (rule assms(3))
  next
    case (step y z)
    then show ?case using closed by (auto simp: edgesIn_def)
  qed
  then show "{b \<in> U. (a, b) \<in> (edgesIn ov U)\<^sup>*} \<subseteq> S" by blast
qed

end

text \<open>The relation on the indices of a group.\<close>

definition treeOverlap :: "containsFn \<Rightarrow> string \<Rightarrow> string \<Rightarrow> bool" where
  "treeOverlap contains p q \<longleftrightarrow> contains p q \<or> contains q p"

definition indexOverlap :: "containsFn \<Rightarrow> destJob list \<Rightarrow> nat \<Rightarrow> nat \<Rightarrow> bool" where
  "indexOverlap contains grp i k \<longleftrightarrow> treeOverlap contains (d_path (grp ! i)) (d_path (grp ! k))"

interpretation dest: overlap_relation "indexOverlap contains grp" for contains grp
  by unfold_locales (auto simp: indexOverlap_def treeOverlap_def)

lemma overlapsAny_iff: "overlapsAny contains members p \<longleftrightarrow> (\<exists>m \<in> set members. treeOverlap contains (d_path m) p)"
  by (auto simp: overlapsAny_def treeOverlap_def list_ex_iff)

lemma overlapsAny_indices:
  "overlapsAny contains (map (nth grp) cs) (d_path (grp ! k)) \<longleftrightarrow> (\<exists>i \<in> set cs. indexOverlap contains grp i k)"
  by (auto simp: overlapsAny_iff indexOverlap_def)

end
