(* ===== verification/Overlap.thy ===== *)
theory Overlap
  imports Advise
begin

text \<open>
  Correctness of \<open>overlapComponents\<close>: it returns the connected components of "equal or
  nested" on the group's paths, each job in exactly one, and the advisory derived from
  them fires exactly for a deleting job whose tree overlaps another job's.
\<close>

section \<open>One growing pass\<close>

text \<open>The indices a pass appends, computed beside it.\<close>

fun passIndices :: "containsFn \<Rightarrow> destJob list \<Rightarrow> nat list \<Rightarrow> nat list \<Rightarrow> bool list \<Rightarrow> nat list" where
  "passIndices contains grp [] cs taken = []"
| "passIndices contains grp (k # ks) cs taken =
     (if taken ! k \<or> \<not> overlapsAny contains (map (nth grp) cs) (d_path (grp ! k))
      then passIndices contains grp ks cs taken
      else k # passIndices contains grp ks (cs @ [k]) (taken[k := True]))"

lemma growPass_indices:
  "growPass contains grp ks (map (nth grp) cs) taken grew =
     (map (nth grp) (cs @ passIndices contains grp ks cs taken),
      mark taken (passIndices contains grp ks cs taken),
      grew \<or> passIndices contains grp ks cs taken \<noteq> [])"
proof (induction ks arbitrary: cs taken grew)
  case Nil
  then show ?case by (simp add: mark_def)
next
  case (Cons k ks)
  show ?case
  proof (cases "taken ! k \<or> \<not> overlapsAny contains (map (nth grp) cs) (d_path (grp ! k))")
    case True
    with Cons.IH [of cs taken grew] show ?thesis by simp
  next
    case False
    with Cons.IH [of "cs @ [k]" "taken[k := True]" True] show ?thesis by (simp add: mark_def)
  qed
qed

lemma passIndices_connected:
  "connectedIn (indexOverlap contains grp) (set cs) \<Longrightarrow>
   connectedIn (indexOverlap contains grp) (set (cs @ passIndices contains grp ks cs taken))"
proof (induction ks arbitrary: cs taken)
  case Nil
  then show ?case by simp
next
  case (Cons k ks)
  show ?case
  proof (cases "taken ! k \<or> \<not> overlapsAny contains (map (nth grp) cs) (d_path (grp ! k))")
    case True
    with Cons show ?thesis by simp
  next
    case False
    then obtain i where "i \<in> set cs" "indexOverlap contains grp i k"
      by (auto simp: overlapsAny_indices)
    then have "connectedIn (indexOverlap contains grp) (set (cs @ [k]))"
      using dest.connectedIn_insert [OF Cons.prems] by simp
    from Cons.IH [OF this, of "taken[k := True]"] False show ?thesis by simp
  qed
qed

lemma passIndices_free:
  assumes "\<forall>k \<in> set ks. k < length taken"
  shows "distinct (passIndices contains grp ks cs taken)
    \<and> (\<forall>n \<in> set (passIndices contains grp ks cs taken). n \<in> set ks \<and> \<not> taken ! n)"
  using assms
proof (induction ks arbitrary: cs taken)
  case Nil
  then show ?case by simp
next
  case (Cons k ks)
  have k: "k < length taken" and ks: "\<forall>k \<in> set ks. k < length taken" using Cons.prems by simp_all
  from ks have ks': "\<forall>n \<in> set ks. n < length (taken[k := True])" by simp
  show ?case
    using Cons.IH [OF ks] Cons.IH [OF ks', of "cs @ [k]"] ks k
    by (auto simp: nth_update_True)
qed

lemma passIndices_stable:
  "passIndices contains grp ks cs taken = [] \<Longrightarrow> k \<in> set ks \<Longrightarrow>
   taken ! k \<or> \<not> (\<exists>i \<in> set cs. indexOverlap contains grp i k)"
  by (induction ks) (auto simp: overlapsAny_indices split: if_splits)

section \<open>The growing loop\<close>

text \<open>What the loop guarantees of one component, in terms of indices.\<close>

definition grownFrom :: "containsFn \<Rightarrow> destJob list \<Rightarrow> nat list \<Rightarrow> bool list \<Rightarrow> nat list \<Rightarrow> bool" where
  "grownFrom contains grp cs taken ns \<longleftrightarrow>
     distinct ns \<and> (\<forall>n \<in> set ns. n < length grp \<and> \<not> taken ! n)
     \<and> connectedIn (indexOverlap contains grp) (set (cs @ ns))
     \<and> (\<forall>i \<in> set (cs @ ns). \<forall>k < length grp. indexOverlap contains grp i k \<longrightarrow> taken ! k \<or> k \<in> set ns)"

lemma growLoop_indices:
  assumes "length taken = length grp" and "connectedIn (indexOverlap contains grp) (set cs)"
  shows "\<exists>ns. growLoop contains grp (map (nth grp) cs) taken = (map (nth grp) (cs @ ns), mark taken ns)
    \<and> grownFrom contains grp cs taken ns"
  using assms
proof (induction "freeCount taken" arbitrary: cs taken rule: less_induct)
  case less
  define ps where "ps = passIndices contains grp [0..<length grp] cs taken"
  have pass: "growPass contains grp [0..<length grp] (map (nth grp) cs) taken False =
      (map (nth grp) (cs @ ps), mark taken ps, ps \<noteq> [])"
    unfolding ps_def by (simp add: growPass_indices)
  have free: "distinct ps" "\<forall>n \<in> set ps. n < length grp \<and> \<not> taken ! n"
    using passIndices_free [of "[0..<length grp]" taken contains grp cs] less.prems(1)
    by (auto simp: ps_def)
  have conn: "connectedIn (indexOverlap contains grp) (set (cs @ ps))"
    unfolding ps_def by (rule passIndices_connected [OF less.prems(2)])
  show ?case
  proof (cases "ps = []")
    case True
    have "taken ! k" if "i \<in> set cs" "k < length grp" "indexOverlap contains grp i k" for i k
      using passIndices_stable [of contains grp "[0..<length grp]" cs taken k] True that
      by (auto simp: ps_def)
    with True conn have "grownFrom contains grp cs taken []" by (auto simp: grownFrom_def)
    moreover have "growLoop contains grp (map (nth grp) cs) taken = (map (nth grp) cs, taken)"
      using less.prems(1) pass True by (simp add: growLoop.simps [of contains grp "map (nth grp) cs" taken] mark_def)
    ultimately show ?thesis by (intro exI [of _ "[]"]) (simp add: mark_def)
  next
    case False
    have dec: "freeCount (mark taken ps) < freeCount taken"
      using growPass_decreases [of contains grp "map (nth grp) cs" taken] pass False less.prems(1) by simp
    from less.hyps [OF dec _ conn] less.prems(1) obtain ns where
      ns: "growLoop contains grp (map (nth grp) (cs @ ps)) (mark taken ps) =
          (map (nth grp) ((cs @ ps) @ ns), mark (mark taken ps) ns)"
        "grownFrom contains grp (cs @ ps) (mark taken ps) ns" by auto
    have mm: "mark (mark taken ps) ns = mark taken (ps @ ns)" by (simp add: mark_def)
    have "grownFrom contains grp cs taken (ps @ ns)"
      using ns(2) free less.prems(1) by (auto simp: grownFrom_def nth_mark)
    moreover have "growLoop contains grp (map (nth grp) cs) taken =
        (map (nth grp) (cs @ ps @ ns), mark taken (ps @ ns))"
      using less.prems(1) pass False ns(1) mm
      by (simp add: growLoop.simps [of contains grp "map (nth grp) cs" taken])
    ultimately show ?thesis by blast
  qed
qed

section \<open>The partition\<close>

text \<open>Index lists that partition a group into its connected components.\<close>

definition componentsOf :: "containsFn \<Rightarrow> destJob list \<Rightarrow> nat list list \<Rightarrow> bool" where
  "componentsOf contains grp css \<longleftrightarrow>
     distinct (concat css)
     \<and> (\<forall>cs \<in> set css. cs \<noteq> [] \<and> set cs \<subseteq> {..<length grp} \<and> connectedIn (indexOverlap contains grp) (set cs)
          \<and> (\<forall>i \<in> set cs. \<forall>k < length grp. indexOverlap contains grp i k \<longrightarrow> k \<in> set cs))"

lemma componentsOf_snoc:
  assumes "componentsOf contains grp css" and "distinct cs" and "cs \<noteq> []" and "set cs \<subseteq> {..<length grp}"
    and "set cs \<inter> set (concat css) = {}" and "connectedIn (indexOverlap contains grp) (set cs)"
    and "\<And>i k. i \<in> set cs \<Longrightarrow> k < length grp \<Longrightarrow> indexOverlap contains grp i k \<Longrightarrow> k \<in> set cs"
  shows "componentsOf contains grp (css @ [cs])"
proof -
  have "distinct (concat (css @ [cs]))"
    using assms(1,2,5) by (simp add: componentsOf_def) blast
  with assms show ?thesis unfolding componentsOf_def by simp
qed

lemma componentLoop_indices:
  assumes "componentsOf contains grp css" and "length taken = length grp"
    and "\<And>k. k < length grp \<Longrightarrow> taken ! k \<longleftrightarrow> k \<in> set (concat css)"
    and "\<forall>i \<in> set is. i < length grp"
  shows "\<exists>css'. componentLoop contains grp is taken (map (map (nth grp)) css) = map (map (nth grp)) css'
    \<and> componentsOf contains grp css' \<and> set (concat css) \<union> set is \<subseteq> set (concat css')"
  using assms
proof (induction "is" arbitrary: css taken)
  case Nil
  then show ?case by auto
next
  case (Cons i "is")
  have i: "i < length grp" using Cons.prems(4) by simp
  show ?case
  proof (cases "taken ! i")
    case True
    with Cons.IH [OF Cons.prems(1-3)] Cons.prems(3) [OF i] Cons.prems(4) show ?thesis by fastforce
  next
    case False
    obtain ns where ns: "growLoop contains grp [grp ! i] (taken[i := True]) =
          (map (nth grp) (i # ns), mark (taken[i := True]) ns)"
        "grownFrom contains grp [i] (taken[i := True]) ns"
      using growLoop_indices [of "taken[i := True]" grp contains "[i]"] Cons.prems(2)
        dest.connectedIn_singleton [of contains grp i] by auto
    have tk: "taken[i := True] ! k \<longleftrightarrow> k \<in> set (concat css) \<or> k = i" if "k < length grp" for k
      using that Cons.prems(2,3) by (simp add: nth_update_True)
    have old: "k \<in> set (concat css)" if "k' \<in> set (concat css)" "k < length grp" "indexOverlap contains grp k' k" for k k'
      using Cons.prems(1) that by (fastforce simp: componentsOf_def)
    have cl: "k \<in> set (i # ns)" if "k' \<in> set (i # ns)" "k < length grp" "indexOverlap contains grp k' k" for k k'
    proof (rule ccontr)
      assume nk: "k \<notin> set (i # ns)"
      with ns(2) that tk have k: "k \<in> set (concat css)" by (auto simp: grownFrom_def)
      have k': "k' < length grp" using that(1) ns(2) i by (auto simp: grownFrom_def)
      from old [OF k k'] that(3) have "k' \<in> set (concat css)" by (blast intro: dest.ov_sym)
      with that(1) ns(2) tk [OF k'] False Cons.prems(3) [OF i] show False by (auto simp: grownFrom_def)
    qed
    have fresh: "set (i # ns) \<inter> set (concat css) = {}"
      using ns(2) i tk False Cons.prems(3) [OF i] by (fastforce simp: grownFrom_def)
    have idx: "distinct (i # ns)" "set (i # ns) \<subseteq> {..<length grp}"
        "connectedIn (indexOverlap contains grp) (set (i # ns))"
      using ns(2) i tk [OF i] by (auto simp: grownFrom_def)
    have new: "componentsOf contains grp (css @ [i # ns])"
      by (rule componentsOf_snoc [OF Cons.prems(1) idx(1) _ idx(2) fresh idx(3) cl]) simp
    have marks: "mark (taken[i := True]) ns ! k \<longleftrightarrow> k \<in> set (concat (css @ [i # ns]))" if "k < length grp" for k
      using that tk [OF that] Cons.prems(2) by (auto simp: nth_mark)
    from Cons.IH [OF new _ marks] Cons.prems(2,4) obtain css' where
      "componentLoop contains grp is (mark (taken[i := True]) ns) (map (map (nth grp)) (css @ [i # ns])) =
         map (map (nth grp)) css'" "componentsOf contains grp css'"
      "set (concat (css @ [i # ns])) \<union> set is \<subseteq> set (concat css')" by auto
    with False ns(1) show ?thesis by (intro exI [of _ css']) auto
  qed
qed

lemma overlapComponents_indices:
  "\<exists>css. overlapComponents contains grp = map (map (nth grp)) css \<and> componentsOf contains grp css
    \<and> set (concat css) = {..<length grp}"
proof -
  have "componentsOf contains grp []" by (simp add: componentsOf_def)
  from componentLoop_indices [OF this, of "replicate (length grp) False" "[0..<length grp]"]
  obtain css where css: "overlapComponents contains grp = map (map (nth grp)) css" "componentsOf contains grp css"
    "{..<length grp} \<subseteq> set (concat css)"
    by (auto simp: overlapComponents_def lessThan_atLeast0)
  moreover have "set (concat css) \<subseteq> {..<length grp}"
    using css(2) by (auto simp: componentsOf_def)
  ultimately show ?thesis by blast
qed

section \<open>Which groups are warned about\<close>

lemma rtrancl_leaves:
  assumes "(a, b) \<in> E\<^sup>*" and "a \<noteq> b"
  shows "\<exists>y. y \<noteq> a \<and> (a, y) \<in> E"
  using assms
proof (induction rule: converse_rtrancl_induct)
  case base
  then show ?case by simp
next
  case (step y z)
  then show ?case by (metis (no_types))
qed

text \<open>A component the advisory is about: two members, one of which deletes.\<close>

definition riskyComponent :: "destJob list \<Rightarrow> bool" where
  "riskyComponent ms \<longleftrightarrow> 2 \<le> length ms \<and> list_ex d_del ms"

definition riskyPair :: "containsFn \<Rightarrow> destJob list \<Rightarrow> nat \<Rightarrow> nat \<Rightarrow> bool" where
  "riskyPair contains grp i k \<longleftrightarrow>
     i < length grp \<and> k < length grp \<and> i \<noteq> k \<and> indexOverlap contains grp i k \<and> d_del (grp ! i)"

lemma two_members: "distinct cs \<Longrightarrow> i \<in> set cs \<Longrightarrow> 2 \<le> length cs \<longleftrightarrow> (\<exists>k \<in> set cs. k \<noteq> i)"
proof
  assume d: "distinct cs" "i \<in> set cs"
  { assume "2 \<le> length cs"
    with d have "card (set cs) \<noteq> card {i}" by (simp add: distinct_card)
    with d show "\<exists>k \<in> set cs. k \<noteq> i" by (metis card_1_singleton_iff empty_iff insertE is_singletonI' is_singleton_altdef card.empty card_insert_disjoint finite.emptyI One_nat_def) }
  { assume "\<exists>k \<in> set cs. k \<noteq> i"
    then obtain k where "k \<in> set cs" "k \<noteq> i" by blast
    with d have "{i, k} \<subseteq> set cs" by simp
    then have "card {i, k} \<le> card (set cs)" by (simp add: card_mono)
    with \<open>k \<noteq> i\<close> d show "2 \<le> length cs" by (simp add: distinct_card) }
qed

lemma risky_component_iff:
  "(\<exists>ms \<in> set (overlapComponents contains grp). riskyComponent ms) \<longleftrightarrow> (\<exists>i k. riskyPair contains grp i k)"
proof -
  obtain css where css: "overlapComponents contains grp = map (map (nth grp)) css" "componentsOf contains grp css"
    "set (concat css) = {..<length grp}" using overlapComponents_indices by blast
  have dist: "distinct cs" if "cs \<in> set css" for cs
    using css(2) that by (simp add: componentsOf_def distinct_concat_iff)
  show ?thesis
  proof
    assume "\<exists>ms \<in> set (overlapComponents contains grp). riskyComponent ms"
    then obtain cs i where cs: "cs \<in> set css" "2 \<le> length cs" "i \<in> set cs" "d_del (grp ! i)"
      by (auto simp: css(1) riskyComponent_def list_ex_iff)
    obtain k where k: "k \<in> set cs" "k \<noteq> i" using two_members [OF dist [OF cs(1)] cs(3)] cs(2) by blast
    have "(i, k) \<in> (edgesIn (indexOverlap contains grp) (set cs))\<^sup>*"
      using css(2) cs k by (auto simp: componentsOf_def connectedIn_def)
    from rtrancl_leaves [OF this] k(2) obtain y where "y \<noteq> i" "(i, y) \<in> edgesIn (indexOverlap contains grp) (set cs)"
      by auto
    then have "riskyPair contains grp i y"
      using css(2) cs by (auto simp: riskyPair_def edgesIn_def componentsOf_def)
    then show "\<exists>i k. riskyPair contains grp i k" by blast
  next
    assume "\<exists>i k. riskyPair contains grp i k"
    then obtain i k where ik: "riskyPair contains grp i k" by blast
    then have "i \<in> set (concat css)" unfolding css(3) by (simp add: riskyPair_def)
    then obtain cs where cs: "cs \<in> set css" "i \<in> set cs" by auto
    have "k \<in> set cs" using css(2) cs ik by (auto simp: componentsOf_def riskyPair_def)
    with two_members [OF dist [OF cs(1)] cs(2)] ik have "2 \<le> length cs" by (auto simp: riskyPair_def)
    with cs ik have "riskyComponent (map (nth grp) cs)"
      by (auto simp: riskyComponent_def riskyPair_def list_ex_iff)
    with cs css(1) show "\<exists>ms \<in> set (overlapComponents contains grp). riskyComponent ms" by auto
  qed
qed

section \<open>The advisory of one component\<close>

text \<open>The documented contracts of the two foreign functions: a root contains itself, and a
  sort returns a permutation.\<close>

definition containsRefl :: "containsFn \<Rightarrow> bool" where
  "containsRefl contains \<longleftrightarrow> (\<forall>p. contains p p)"

definition sortPermutes :: "sortFunc \<Rightarrow> bool" where
  "sortPermutes sortFn \<longleftrightarrow> (\<forall>f xs. mset (sortFn f xs) = mset xs)"

lemma warnConflictingTree_total:
  assumes "containsRefl contains" and "sortPermutes sortFn"
  shows "\<exists>l. warnConflictingTree contains sortFn ms = Some l \<and> (l \<noteq> [] \<longleftrightarrow> riskyComponent ms)"
proof (cases "riskyComponent ms")
  case False
  then show ?thesis by (auto simp: riskyComponent_def warnConflictingTree_def)
next
  case True
  let ?del = "filter d_del ms"
  let ?risk = "filter (\<lambda>m. overlapsAny contains ?del (d_path m)) ms"
  from True obtain m where "m \<in> set ms" "d_del m" by (auto simp: riskyComponent_def list_ex_iff)
  then have "m \<in> set ?risk"
    using assms(1) by (auto simp: overlapsAny_iff treeOverlap_def containsRefl_def)
  moreover have "set (sortFn cmpDest ?risk) = set ?risk"
    using assms(2) by (metis sortPermutes_def set_mset_mset)
  ultimately obtain a r where "sortFn cmpDest ?risk = a # r"
    by (cases "sortFn cmpDest ?risk") auto
  with True show ?thesis
    by (auto simp: riskyComponent_def warnConflictingTree_def Let_def)
qed

lemma sequenceLogs_total:
  assumes "\<forall>x \<in> set xs. x \<noteq> None"
  shows "sequenceLogs xs = Some (concat (map the xs))"
  using assms by (induction xs) auto

section \<open>Grouping by host\<close>

lemma map_of_appendAt:
  "map_of (appendAt k d g) k' =
     (if k' = k then Some ((case map_of g k of None \<Rightarrow> [] | Some ds \<Rightarrow> ds) @ [d]) else map_of g k')"
  by (induction k d g rule: appendAt.induct) auto

definition groupOf :: "(nat \<Rightarrow> nat) \<Rightarrow> job list \<Rightarrow> string \<Rightarrow> destJob list" where
  "groupOf tbl js k = map destOf (filter (\<lambda>j. jobKey tbl j = k) js)"

lemma map_of_groupJobs:
  "map_of (groupJobs tbl js) k = (if groupOf tbl js k = [] then None else Some (groupOf tbl js k))"
proof (induction js rule: rev_induct)
  case Nil
  then show ?case by (simp add: groupJobs_def groupOf_def)
next
  case (snoc j js)
  have "groupJobs tbl (js @ [j]) = appendAt (jobKey tbl j) (destOf j) (groupJobs tbl js)"
    by (simp add: groupJobs_def)
  with snoc show ?case by (auto simp: map_of_appendAt groupOf_def)
qed

lemma keys_groupJobs: "set (map fst (groupJobs tbl js)) = jobKey tbl ` set js"
proof -
  have "k \<in> set (map fst (groupJobs tbl js)) \<longleftrightarrow> k \<in> jobKey tbl ` set js" for k
  proof -
    have "k \<in> set (map fst (groupJobs tbl js)) \<longleftrightarrow> map_of (groupJobs tbl js) k \<noteq> None"
      by (simp add: map_of_eq_None_iff)
    also have "\<dots> \<longleftrightarrow> groupOf tbl js k \<noteq> []" by (simp add: map_of_groupJobs)
    also have "\<dots> \<longleftrightarrow> k \<in> jobKey tbl ` set js" by (auto simp: groupOf_def filter_empty_conv)
    finally show ?thesis .
  qed
  then show ?thesis by blast
qed

lemma lookup_groupJobs:
  "(case map_of (groupJobs tbl js) k of None \<Rightarrow> [] | Some ds \<Rightarrow> ds) = groupOf tbl js k"
  by (simp add: map_of_groupJobs)

text \<open>Two different positions of a list related by a predicate.\<close>

definition pairAt :: "('a \<Rightarrow> 'a \<Rightarrow> bool) \<Rightarrow> 'a list \<Rightarrow> bool" where
  "pairAt R xs \<longleftrightarrow> (\<exists>i k. i < length xs \<and> k < length xs \<and> i \<noteq> k \<and> R (xs ! i) (xs ! k))"

lemma pairAt_Nil [simp]: "\<not> pairAt R []"
  by (simp add: pairAt_def)

lemma pairAt_Cons: "pairAt R (x # xs) \<longleftrightarrow> (\<exists>y \<in> set xs. R x y \<or> R y x) \<or> pairAt R xs"
proof
  assume "pairAt R (x # xs)"
  then obtain i k where ik: "i < Suc (length xs)" "k < Suc (length xs)" "i \<noteq> k" "R ((x # xs) ! i) ((x # xs) ! k)"
    by (auto simp: pairAt_def)
  show "(\<exists>y \<in> set xs. R x y \<or> R y x) \<or> pairAt R xs"
  proof (cases "i = 0 \<or> k = 0")
    case True
    with ik show ?thesis by (cases i; cases k) (auto simp: nth_mem)
  next
    case False
    with ik show ?thesis by (cases i; cases k) (auto simp: pairAt_def)
  qed
next
  assume "(\<exists>y \<in> set xs. R x y \<or> R y x) \<or> pairAt R xs"
  then show "pairAt R (x # xs)"
  proof
    assume "\<exists>y \<in> set xs. R x y \<or> R y x"
    then obtain k where "k < length xs" "R x (xs ! k) \<or> R (xs ! k) x" by (auto simp: in_set_conv_nth)
    then show ?thesis
      unfolding pairAt_def by (metis Suc_less_eq length_Cons nat.distinct(1) nth_Cons_0 nth_Cons_Suc zero_less_Suc)
  next
    assume "pairAt R xs"
    then obtain i k where "i < length xs" "k < length xs" "i \<noteq> k" "R (xs ! i) (xs ! k)" by (auto simp: pairAt_def)
    then show ?thesis unfolding pairAt_def by (intro exI [of _ "Suc i"] exI [of _ "Suc k"]) simp
  qed
qed

lemma pairAt_map: "pairAt R (map f xs) \<longleftrightarrow> pairAt (\<lambda>x y. R (f x) (f y)) xs"
  unfolding pairAt_def by (metis length_map nth_map)

lemma pairAt_filter: "pairAt R (filter P xs) \<longleftrightarrow> pairAt (\<lambda>x y. P x \<and> P y \<and> R x y) xs"
  by (induction xs) (auto simp: pairAt_Cons)

text \<open>The condition the advisory stands for, on two jobs.\<close>

definition deletesInto :: "containsFn \<Rightarrow> (nat \<Rightarrow> nat) \<Rightarrow> job \<Rightarrow> job \<Rightarrow> bool" where
  "deletesInto contains tbl j j' \<longleftrightarrow>
     Delete j \<and> jobKey tbl j = jobKey tbl j'
     \<and> treeOverlap contains (goClean (RemotePath j)) (goClean (RemotePath j'))"

lemma risky_group_iff:
  "(\<exists>k. \<exists>ms \<in> set (overlapComponents contains (groupOf tbl js k)). riskyComponent ms)
     \<longleftrightarrow> pairAt (deletesInto contains tbl) js"
proof -
  have grp: "(\<exists>i l. riskyPair contains (groupOf tbl js k) i l) \<longleftrightarrow>
      pairAt (\<lambda>j j'. jobKey tbl j = k \<and> jobKey tbl j' = k \<and> deletesInto contains tbl j j') js" for k
  proof -
    have "(\<exists>i l. riskyPair contains (groupOf tbl js k) i l) \<longleftrightarrow>
        pairAt (\<lambda>a b. d_del a \<and> treeOverlap contains (d_path a) (d_path b)) (groupOf tbl js k)"
      by (auto simp: riskyPair_def pairAt_def indexOverlap_def)
    also have "\<dots> \<longleftrightarrow> pairAt (\<lambda>j j'. jobKey tbl j = k \<and> jobKey tbl j' = k \<and> deletesInto contains tbl j j') js"
      unfolding groupOf_def pairAt_map pairAt_filter
      by (rule arg_cong [where f = "\<lambda>R. pairAt R js"]) (auto simp: fun_eq_iff destOf_def deletesInto_def)
    finally show ?thesis .
  qed
  have "(\<exists>k. pairAt (\<lambda>j j'. jobKey tbl j = k \<and> jobKey tbl j' = k \<and> deletesInto contains tbl j j') js)
      \<longleftrightarrow> pairAt (deletesInto contains tbl) js"
    unfolding pairAt_def by (auto simp: deletesInto_def)
  then show ?thesis by (simp add: risky_component_iff grp)
qed

lemma warnSharedDestinations_total:
  assumes "containsRefl contains" and "sortPermutes sortFn"
  shows "\<exists>l. warnSharedDestinations contains sortFn tbl js = Some l
    \<and> (l \<noteq> [] \<longleftrightarrow> pairAt (deletesInto contains tbl) js)"
proof -
  define comps where "comps = concat (map (\<lambda>k. overlapComponents contains (groupOf tbl js k)) (sort (map fst (groupJobs tbl js))))"
  note tot = warnConflictingTree_total [OF assms]
  have eq: "warnSharedDestinations contains sortFn tbl js = sequenceLogs (map (warnConflictingTree contains sortFn) comps)"
    by (simp add: warnSharedDestinations_def Let_def lookup_groupJobs comps_def map_concat comp_def)
  have "\<forall>x \<in> set (map (warnConflictingTree contains sortFn) comps). x \<noteq> None"
    using tot by auto
  from sequenceLogs_total [OF this]
  have l: "warnSharedDestinations contains sortFn tbl js =
      Some (concat (map (the \<circ> warnConflictingTree contains sortFn) comps))" by (simp add: eq)
  have "concat (map (the \<circ> warnConflictingTree contains sortFn) comps) \<noteq> [] \<longleftrightarrow> (\<exists>ms \<in> set comps. riskyComponent ms)"
    using tot by (auto simp: comp_def) (metis option.sel)+
  also have "\<dots> \<longleftrightarrow> (\<exists>k. \<exists>ms \<in> set (overlapComponents contains (groupOf tbl js k)). riskyComponent ms)"
  proof
    assume "\<exists>k. \<exists>ms \<in> set (overlapComponents contains (groupOf tbl js k)). riskyComponent ms"
    then obtain k ms where k: "ms \<in> set (overlapComponents contains (groupOf tbl js k))" "riskyComponent ms" by blast
    have "groupOf tbl js k \<noteq> []" using k(1) by (auto simp: overlapComponents_def)
    then have "k \<in> set (sort (map fst (groupJobs tbl js)))"
      using keys_groupJobs [of tbl js] by (auto simp: groupOf_def filter_empty_conv)
    with k show "\<exists>ms \<in> set comps. riskyComponent ms" by (auto simp: comps_def)
  qed (auto simp: comps_def)
  finally show ?thesis using l by (simp add: risky_group_iff)
qed

section \<open>Properties\<close>

text \<open>C11 (functional): the destinations of one host are partitioned into the connected
  components of "equal or nested": the loops terminate, every job is in exactly one
  component, and the component of a job holds exactly the jobs reachable from it over
  overlapping trees.\<close>

theorem overlapComponents_partition:
  "\<exists>css. overlapComponents contains grp = map (map (nth grp)) css
     \<and> distinct (concat css) \<and> set (concat css) = {..<length grp}
     \<and> (\<forall>cs \<in> set css. \<forall>i \<in> set cs. set cs =
          {k. k < length grp \<and> (i, k) \<in> (edgesIn (indexOverlap contains grp) {..<length grp})\<^sup>*})"
proof -
  obtain css where css: "overlapComponents contains grp = map (map (nth grp)) css" "componentsOf contains grp css"
    "set (concat css) = {..<length grp}" using overlapComponents_indices by blast
  have "set cs = {k. k < length grp \<and> (i, k) \<in> (edgesIn (indexOverlap contains grp) {..<length grp})\<^sup>*}"
    if "cs \<in> set css" "i \<in> set cs" for cs i
  proof -
    from css(2) that(1) have c: "connectedIn (indexOverlap contains grp) (set cs)" "set cs \<subseteq> {..<length grp}"
      "\<And>i k. i \<in> set cs \<Longrightarrow> k \<in> {..<length grp} \<Longrightarrow> indexOverlap contains grp i k \<Longrightarrow> k \<in> set cs"
      unfolding componentsOf_def by blast+
    from dest.closed_component [OF c(1,2) that(2) c(3)] show ?thesis by simp
  qed
  moreover have "distinct (concat css)" using css(2) by (simp add: componentsOf_def)
  ultimately show ?thesis using css(1,3) by blast
qed

definition sampleContains :: containsFn where
  "sampleContains p q = (p = q \<or> prefix (p @ ''/'') q)"

definition sampleGroup :: "destJob list" where
  "sampleGroup =
     [\<lparr>d_name = ''a'', d_raw = ''nas'', d_path = ''/srv'', d_key = ''/k'', d_del = True\<rparr>,
      \<lparr>d_name = ''b'', d_raw = ''nas'', d_path = ''/srv/b'', d_key = ''/k'', d_del = False\<rparr>]"

theorem overlapComponents_partition_witness:
  "\<exists>cs. set cs = {k. k < 2 \<and> (0, k) \<in> (edgesIn (indexOverlap sampleContains sampleGroup) {..<2})\<^sup>*}
     \<and> map (nth sampleGroup) cs \<in> set (overlapComponents sampleContains sampleGroup)"
proof -
  have len: "length sampleGroup = 2" by (simp add: sampleGroup_def)
  from overlapComponents_partition [of sampleContains sampleGroup] obtain css where
    css: "overlapComponents sampleContains sampleGroup = map (map (nth sampleGroup)) css"
      "set (concat css) = {..<2}"
      "\<forall>cs \<in> set css. \<forall>i \<in> set cs. set cs =
          {k. k < 2 \<and> (i, k) \<in> (edgesIn (indexOverlap sampleContains sampleGroup) {..<2})\<^sup>*}"
    unfolding len by blast
  have "0 \<in> set (concat css)" unfolding css(2) by simp
  then obtain cs where "cs \<in> set css" "0 \<in> set cs" by auto
  with css show ?thesis by (intro exI [of _ cs]) auto
qed

text \<open>The shared-destination advisory. Given that a root contains itself and
  that sorting permutes, the advisory never indexes an empty slice, and it warns exactly
  when two different jobs of the file go to the same host with equal or nested remote
  directories and one of the two deletes.\<close>

lemma warnSharedDestinations_iff:
  assumes "containsRefl contains" and "sortPermutes sortFn"
  shows "\<exists>l. warnSharedDestinations contains sortFn tbl js = Some l
    \<and> (l \<noteq> [] \<longleftrightarrow>
        (\<exists>i k. i < length js \<and> k < length js \<and> i \<noteq> k \<and> Delete (js ! i)
           \<and> jobKey tbl (js ! i) = jobKey tbl (js ! k)
           \<and> treeOverlap contains (goClean (RemotePath (js ! i))) (goClean (RemotePath (js ! k)))))"
  using warnSharedDestinations_total [OF assms, of tbl js]
  by (simp add: pairAt_def deletesInto_def)

definition sampleSort :: sortFunc where
  "sampleSort f xs = xs"

lemma sampleLaws: "containsRefl sampleContains" "sortPermutes sampleSort"
  by (simp_all add: containsRefl_def sampleContains_def sortPermutes_def sampleSort_def)

text \<open>The per-job advisories are silent exactly for a job all of whose
  settings take effect: no deletion cap without deletion, both owners or none, no empty
  exclude pattern and none with blanks around it.\<close>

lemma warnInertSettings_silent_iff:
  "warnInertSettings j = [] \<longleftrightarrow>
     (MaxDelete j \<noteq> None \<longrightarrow> Delete j) \<and> ((RemoteUID j = None) = (RemoteGID j = None))
     \<and> (\<forall>e \<in> set (Excludes j). e \<noteq> [] \<and> trimSpace e = e)"
  by (auto simp: warnInertSettings_def Let_def)

end
