(* ===== verification/Daemon.thy ===== *)
theory Daemon
  imports Health Overlap
begin

text \<open>
  The daemon (daemon.go): \<open>run\<close>, \<open>recordScheduled\<close>, \<open>tick\<close>, \<open>startTicker\<close> and
  \<open>runDaemon\<close>.

  The packages scheduler and trigger are not part of the repository. The last-run record
  is a value of a type variable \<open>'s\<close>; what \<open>Stamp.Record\<close> and \<open>os.Remove\<close> do to it
  during one request, and whether they fail, is part of that request's environment. The
  queue's contract is that its executor calls \<open>run\<close> for one request at a time: the
  daemon's behaviour is a sequence of such calls, interleaved with the shutdown.
\<close>

section \<open>Data\<close>

definition triggerStartup :: string where
  "triggerStartup = ''startup''"

definition triggerInterval :: string where
  "triggerInterval = ''interval''"

definition queueCapacity :: nat where
  "queueCapacity = 16"

record ('l, 's) daemon =
  dm_health :: 'l
  dm_stamp :: 's
  dm_transport :: transport
  dm_timeout :: int
  dm_advised :: string

record outcome =
  out_OK :: bool
  out_Duration :: int
  out_Reason :: string

text \<open>The foreign functions that stay the same for the life of the process; \<open>lib_cancelled\<close> is
  the result that the queue delivers to a request still waiting when the context ends.\<close>

record 'l libs =
  lib_env :: envLib
  lib_yaml :: yamlLib
  lib_contains :: containsFn
  lib_sort :: sortFunc
  lib_latch :: "'l latchLib"
  lib_cancelled :: "string \<Rightarrow> outcome"

text \<open>The outside world during one request.\<close>

record 's runEnv =
  re_fs :: opener
  re_pass :: passEnv
  re_start :: int
  re_end :: int
  re_record :: "'s \<Rightarrow> bool \<Rightarrow> 's \<times> goerr option"
  re_remove :: "'s \<Rightarrow> 's \<times> goerr option"

section \<open>One request\<close>

definition recordScheduled :: "'s runEnv \<Rightarrow> string \<Rightarrow> bool \<Rightarrow> 's \<Rightarrow> 's \<times> logRec list" where
  "recordScheduled env trig ok stamp =
     (if trig \<noteq> triggerStartup \<and> trig \<noteq> triggerInterval then (stamp, [])
      else (case re_record env stamp ok of
              (stamp1, None) \<Rightarrow> (stamp1, [])
            | (stamp1, Some err) \<Rightarrow>
                (case re_remove env stamp1 of
                   (stamp2, rmErr) \<Rightarrow>
                     if rmErr = None \<or> errIsOpt rmErr ErrNotExist
                     then (stamp2,
                           [slogWarn ''cannot record the pass outcome; the next boot runs a startup pass''
                              [(''path'', AStr stampPath), (''error'', AErr err)]])
                     else (stamp2,
                           [slogWarn ''cannot record the pass outcome or remove the stale record; the next boot may trust it''
                              [(''path'', AStr stampPath), (''error'', AErr err), (''remove_error'', AErr (the rmErr))]]))))"

definition reloadFailedReason :: string where
  "reloadFailedReason = ''config reload failed''"

definition cutShortReason :: string where
  "cutShortReason = ''pass cut short by shutdown; remaining jobs did not run''"

text \<open>\<open>(d *daemon) run\<close>. \<open>None\<close> is a panic, in the advisories or in the capture of a job's
  stderr.\<close>

definition daemon_run ::
  "'l libs \<Rightarrow> 's runEnv \<Rightarrow> ('l, 's) daemon \<Rightarrow> string
     \<Rightarrow> (('l, 's) daemon \<times> outcome \<times> logRec list) option" where
  "daemon_run L env d trig =
     (case loadConfig (lib_env L) (lib_yaml L) (re_fs env) of
        Inl err \<Rightarrow>
          (case recordScheduled env trig False (dm_stamp d) of
             (stamp, lg) \<Rightarrow>
               Some (d\<lparr>dm_health := l_set (lib_latch L) (dm_health d) False, dm_stamp := stamp\<rparr>,
                     \<lparr>out_OK = False, out_Duration = re_end env - re_start env, out_Reason = reloadFailedReason\<rparr>,
                     slogError ''config reload failed''
                       [(''path'', AStr (configPath (lib_env L))), (''stage'', AStr (stageOf err)),
                        (''trigger'', AStr trig), (''error'', ALoadErr err)] # lg))
      | Inr lc \<Rightarrow>
          (case (if lc_digest lc \<noteq> dm_advised d
                 then adviseConfig (lib_contains L) (lib_sort L) (env_lower (lib_env L)) (lc_cfg lc)
                 else Some []) of
             None \<Rightarrow> None
           | Some advice \<Rightarrow>
               if passPanics (pe_jobs (re_pass env)) (dm_timeout d) (dm_transport d) 0 (Jobs (lc_cfg lc))
               then None
               else
               (case runPass (re_pass env) (lc_cfg lc) (dm_timeout d) (dm_transport d) trig of
                  (res, jobLogs) \<Rightarrow>
                    (case (if vouchable res then recordScheduled env trig (healthy res) (dm_stamp d)
                           else (dm_stamp d, [])) of
                       (stamp, lg) \<Rightarrow>
                         Some (d\<lparr>dm_advised := lc_digest lc,
                                 dm_health := applyPassHealth (lib_latch L) (dm_health d) res,
                                 dm_stamp := stamp\<rparr>,
                               \<lparr>out_OK = healthy res, out_Duration = re_end env - re_start env,
                                out_Reason = (if healthy res \<and> pr_interrupted res then cutShortReason else [])\<rparr>,
                               advice @ jobLogs @ reportPass res @ lg)))))"

section \<open>The ticker\<close>

text \<open>A request is its trigger label; it carries no arguments.\<close>

type_synonym request = "string \<times> unit"

definition newRequest :: "string \<Rightarrow> request" where
  "newRequest trig = (trig, ())"

text \<open>\<open>tick\<close>: what \<open>Submit\<close> answers decides; an accepted request is waited for.\<close>

definition tick :: "(request \<Rightarrow> goerr option) \<Rightarrow> string \<Rightarrow> bool \<times> logRec list" where
  "tick submit trig =
     (case submit (newRequest trig) of
        Some err \<Rightarrow> (False, [slogWarn ''scheduled sync skipped'' [(''trigger'', AStr trig), (''reason'', AErr err)]])
      | None \<Rightarrow> (True, []))"

text \<open>What \<open>startTicker\<close> starts: nothing in external mode; otherwise a startup tick when one
  is due, then the loop with its first delay.\<close>

record tickerPlan =
  tp_startup :: bool
  tp_interval :: int
  tp_firstDelay :: int

definition startTicker :: "int \<Rightarrow> bool \<Rightarrow> int \<Rightarrow> tickerPlan option" where
  "startTicker interval enabled remaining =
     (if \<not> enabled then None
      else Some \<lparr>tp_startup = (remaining = 0), tp_interval = interval, tp_firstDelay = remaining\<rparr>)"

text \<open>The ticks of that goroutine, each with the queue's answer at its time: the startup
  tick, if one is due, comes before the first call that \<open>scheduler.RunLoop\<close> makes, and the
  loop makes one call after the other. The labels of the requests that were accepted, in
  order, and the records written.\<close>

fun ticks :: "string \<Rightarrow> (request \<Rightarrow> goerr option) list \<Rightarrow> string list \<times> logRec list" where
  "ticks trig [] = ([], [])"
| "ticks trig (submit # later) =
     (case tick submit trig of
        (ok, lg) \<Rightarrow>
          (case ticks trig later of
             (accepted, lgs) \<Rightarrow> (if ok then trig # accepted else accepted, lg @ lgs)))"

definition tickerRun ::
  "tickerPlan option \<Rightarrow> (request \<Rightarrow> goerr option) \<Rightarrow> (request \<Rightarrow> goerr option) list \<Rightarrow> string list \<times> logRec list" where
  "tickerRun plan atStartup atLoop =
     (case plan of
        None \<Rightarrow> ([], [])
      | Some tp \<Rightarrow>
          (case (if tp_startup tp then ticks triggerStartup [atStartup] else ([], [])) of
             (accepted0, lg0) \<Rightarrow>
               (case ticks triggerInterval atLoop of
                  (accepted, lg) \<Rightarrow> (accepted0 @ accepted, lg0 @ lg))))"

section \<open>Booting\<close>

text \<open>\<open>os.OpenFile\<close> for writing: its error, or the answer of closing the file it opened.\<close>

type_synonym writeOpener = "string \<Rightarrow> goerr + goerr option"

definition openRecordForWrite :: "writeOpener \<Rightarrow> string \<Rightarrow> goerr option" where
  "openRecordForWrite open path = (case open path of Inl err \<Rightarrow> Some err | Inr closeErr \<Rightarrow> closeErr)"

text \<open>The outside world at boot; \<open>be_cause\<close> is \<open>context.Cause\<close> once the context has ended,
  \<open>be_remaining\<close> is \<open>stamp.Remaining\<close> at the time of the
  boot and \<open>be_last\<close> the time of the record that \<open>stamp.Last\<close> returns.\<close>

record 's bootEnv =
  be_marker :: bool
  be_fs :: opener
  be_listen :: "goerr option"
  be_stamp :: 's
  be_remaining :: "'s \<Rightarrow> int \<Rightarrow> int"
  be_openWrite :: writeOpener
  be_last :: "'s \<Rightarrow> int"
  be_cause :: goerr

datatype bootErr = BootConfig loadErr | BootKnownHosts goerr | BootListen goerr | BootPanic

record ('l, 's) booted =
  bo_daemon :: "('l, 's) daemon"
  bo_ticker :: "tickerPlan option"
  bo_startupDue :: bool

definition startedAttrs :: "envLib \<Rightarrow> config \<Rightarrow> int \<Rightarrow> bool \<Rightarrow> int \<Rightarrow> transport \<Rightarrow> bool \<Rightarrow> (string \<times> attrVal) list" where
  "startedAttrs lib cfg interval scheduleEnabled timeout tr startupDue =
     [(''mode'', AStr (if scheduleEnabled then ''built-in'' else ''external'')),
      (''jobs'', AInt (int (length (Jobs cfg)))), (''config'', AStr (configPath lib)),
      (''interval'', AStr (if scheduleEnabled then durationString interval else ''none'')), (''timeout'', AInt timeout),
      (''ssh_hostkey_mode'', AStr (hostKeyModeString (hostKeys tr))), (''acls'', ABool (acls tr)),
      (''xattrs'', ABool (xattrs tr)), (''compress'', AStr (cmpOr (compress tr) ''off'')),
      (''socket'', AStr socketPath)]
     @ (if scheduleEnabled then [(''startup_pass'', ABool startupDue)] else [])"

definition loadHint :: string where
  "loadHint = ''mount a config.yaml at this path '' @ [CHR 0xE2, CHR 0x80, CHR 0x94]
     @ '' see config.example.yaml in the repo''"

definition knownHostsHint :: string where
  "knownHostsHint = ''mount a non-empty known_hosts file at '' @ knownHostsPath @ '', or omit the mount for accept-new''"

definition recordHint :: string where
  "recordHint = ''mount /data read-write, or leave it unmounted''"

text \<open>The time left until the next scheduled pass, and the check that the record it is read
  from can be rewritten.\<close>

definition remainingAtBoot :: "'s bootEnv \<Rightarrow> int \<Rightarrow> bool \<Rightarrow> int \<times> logRec list" where
  "remainingAtBoot env interval scheduleEnabled =
     (let remaining = (if scheduleEnabled then be_remaining env (be_stamp env) interval else 0)
      in if 0 < remaining
         then (case openRecordForWrite (be_openWrite env) stampPath of
                 None \<Rightarrow> (remaining, [])
               | Some err \<Rightarrow>
                   (0, [slogWarn ''cannot rewrite the last-run record; the startup pass runs and the record is ignored''
                          [(''path'', AStr stampPath), (''error'', AErr err), (''hint'', AStr recordHint)]]))
         else (remaining, []))"

text \<open>\<open>runDaemon\<close> up to the point where it waits for the shutdown: the error it returns or
  the running daemon, with the records it writes.\<close>

definition runDaemon_boot :: "'l libs \<Rightarrow> 's bootEnv \<Rightarrow> (bootErr + ('l, 's) booted) \<times> logRec list" where
  "runDaemon_boot L env =
     (let lib = lib_env L
      in case loadConfig lib (lib_yaml L) (be_fs env) of
           Inl err \<Rightarrow>
             (Inl (BootConfig err),
              [slogError ''cannot load config''
                 [(''path'', AStr (configPath lib)), (''stage'', AStr (stageOf err)), (''error'', ALoadErr err),
                  (''hint'', AStr loadHint)]])
         | Inr lc \<Rightarrow>
             (case adviseConfig (lib_contains L) (lib_sort L) (env_lower lib) (lc_cfg lc) of
                None \<Rightarrow> (Inl BootPanic, [])
              | Some advice \<Rightarrow>
                  (case loadSyncTimeout lib of (timeout, lgT) \<Rightarrow>
                  (case loadInterval lib of (interval, scheduleEnabled) \<Rightarrow>
                  (case classifyKnownHosts (be_fs env) knownHostsPath of
                     Inl err \<Rightarrow>
                       (Inl (BootKnownHosts err),
                        advice @ lgT @ [slogError ''cannot determine the ssh host-key posture''
                                          [(''error'', AErr err), (''hint'', AStr knownHostsHint)]])
                   | Inr hk \<Rightarrow>
                       (case be_listen env of
                          Some err \<Rightarrow>
                            (Inl (BootListen err),
                             advice @ lgT @ [slogError ''cannot bind trigger socket''
                                               [(''path'', AStr socketPath), (''error'', AErr err)]])
                        | None \<Rightarrow>
                            (let (remaining, lgR) = remainingAtBoot env interval scheduleEnabled;
                                 startupDue = (remaining = 0);
                                 latch = l_set (lib_latch L) (l_new (lib_latch L) (l_cleanup (lib_latch L) (be_marker env))) (\<not> scheduleEnabled \<or> \<not> startupDue);
                                 (tr, lgC) = loadTransport lib hk;
                                 d = \<lparr>dm_health = latch, dm_stamp = be_stamp env, dm_transport = tr,
                                      dm_timeout = timeout, dm_advised = lc_digest lc\<rparr>;
                                 lgS = slogInfo ''container started''
                                         (startedAttrs lib (lc_cfg lc) interval scheduleEnabled timeout tr startupDue)
                                       # (if scheduleEnabled \<and> \<not> startupDue
                                          then [slogInfo ''startup pass skipped: the last scheduled pass succeeded within the interval''
                                                  [(''last_success'', AInt (be_last env (be_stamp env))),
                                                   (''interval'', AInt interval), (''next_tick_in'', AInt remaining)]]
                                          else [])
                             in (Inr \<lparr>bo_daemon = d, bo_ticker = startTicker interval scheduleEnabled remaining,
                                      bo_startupDue = startupDue\<rparr>,
                                 advice @ lgT @ lgR @ lgC @ lgS))))))))"

section \<open>The running daemon\<close>

text \<open>The shutdown branch of \<open>runDaemon\<close>: the latch drains before anything is waited for.\<close>

definition beginShutdown :: "'l libs \<Rightarrow> ('l, 's) daemon \<Rightarrow> ('l, 's) daemon" where
  "beginShutdown L d = d\<lparr>dm_health := l_beginDrain (lib_latch L) (dm_health d)\<rparr>"

text \<open>The calls of \<open>d.run\<close>, one after the other, for the requests that the executor takes.\<close>

fun serveAll ::
  "'l libs \<Rightarrow> ('l, 's) daemon \<Rightarrow> (string \<times> 's runEnv) list
     \<Rightarrow> (('l, 's) daemon \<times> outcome list \<times> logRec list) option" where
  "serveAll L d [] = Some (d, [], [])"
| "serveAll L d ((trig, env) # reqs) =
     (case daemon_run L env d trig of
        None \<Rightarrow> None
      | Some (d1, out, lg) \<Rightarrow>
          (case serveAll L d1 reqs of
             None \<Rightarrow> None
           | Some (d2, outs, lgs) \<Rightarrow> Some (d2, out # outs, lg @ lgs)))"

text \<open>How \<open>runDaemon\<close> ends, with the outcomes it delivered and the marker it leaves.\<close>

datatype daemonEnd = DaemonErr bootErr | DaemonPanic | DaemonStopped "outcome list"

text \<open>The request in flight, if any, as a list.\<close>

definition inFlight :: "(string \<times> 's runEnv) option \<Rightarrow> (string \<times> 's runEnv) list" where
  "inFlight r = (case r of None \<Rightarrow> [] | Some q \<Rightarrow> [q])"

text \<open>
  \<open>runDaemon\<close>: boot, the requests served before the context is cancelled, the shutdown, the
  one request in flight if its pass resolves after it, the cancellation results of the
  requests still queued, which are never run, and the deferred \<open>marker.Cleanup\<close>. A panic of
  the executor's goroutine ends the process before any deferred call of \<open>runDaemon\<close>.
\<close>

definition runDaemon ::
  "'l libs \<Rightarrow> 's bootEnv \<Rightarrow> (string \<times> 's runEnv) list \<Rightarrow> (string \<times> 's runEnv) option \<Rightarrow> string list
     \<Rightarrow> daemonEnd \<times> bool option \<times> logRec list" where
  "runDaemon L env before flight queued =
     (case runDaemon_boot L env of
        (Inl err, lg) \<Rightarrow>
          (DaemonErr err, Some (l_cleanup (lib_latch L) (l_cleanup (lib_latch L) (be_marker env))), lg)
      | (Inr b, lg) \<Rightarrow>
          (case serveAll L (bo_daemon b) before of
             None \<Rightarrow> (DaemonPanic, None, lg)
           | Some (d1, outs1, lg1) \<Rightarrow>
               (case serveAll L (beginShutdown L d1) (inFlight flight) of
                  None \<Rightarrow> (DaemonPanic, None, lg @ lg1 @ [slogInfo ''shutting down'' [(''cause'', AErr (be_cause env))]])
                | Some (d2, outs2, lg2) \<Rightarrow>
                    (DaemonStopped (outs1 @ outs2 @ map (lib_cancelled L) queued),
                     Some (l_cleanup (lib_latch L) (l_up (lib_latch L) (dm_health d2))),
                     lg @ lg1 @ [slogInfo ''shutting down'' [(''cause'', AErr (be_cause env))]] @ lg2 @ [slogInfo ''shutdown complete'' []]))))"

section \<open>The daemon as a transition system\<close>

datatype 's event = ServeRequest string "'s runEnv" | BeginShutdown

text \<open>A step serves one request or begins the shutdown; a pass in flight at the shutdown
  delivers its result afterwards, so requests may still follow it.\<close>

inductive daemon_step ::
  "'l libs \<Rightarrow> ('l, 's) daemon \<Rightarrow> 's event \<Rightarrow> ('l, 's) daemon \<Rightarrow> bool" for L where
  serve: "daemon_run L env d trig = Some (d', out, lg) \<Longrightarrow> daemon_step L d (ServeRequest trig env) d'"
| shutdown: "daemon_step L d BeginShutdown (beginShutdown L d)"

inductive_cases step_serveE: "daemon_step L d (ServeRequest trig env) d'"
inductive_cases step_shutdownE: "daemon_step L d BeginShutdown d'"

inductive daemon_trace ::
  "'l libs \<Rightarrow> ('l, 's) daemon \<Rightarrow> 's event list \<Rightarrow> ('l, 's) daemon \<Rightarrow> bool" for L where
  trace_nil: "daemon_trace L d [] d"
| trace_snoc: "daemon_trace L d evs d1 \<Longrightarrow> daemon_step L d1 ev d2 \<Longrightarrow> daemon_trace L d (evs @ [ev]) d2"

section \<open>Invariants of a transition system\<close>

text \<open>What every step keeps holds along a trace, whatever relation the traces are, as long
  as it is the empty trace or a trace and one more step.\<close>

locale step_invariant =
  fixes stepTo :: "'s \<Rightarrow> 'e \<Rightarrow> 's \<Rightarrow> bool"
    and traceTo :: "'s \<Rightarrow> 'e list \<Rightarrow> 's \<Rightarrow> bool"
    and inv :: "'s \<Rightarrow> bool"
  assumes inv_step: "inv s \<Longrightarrow> stepTo s e s' \<Longrightarrow> inv s'"
    and trace_cases: "traceTo s es s' \<Longrightarrow>
      es = [] \<and> s' = s \<or> (\<exists>es0 e s1. es = es0 @ [e] \<and> traceTo s es0 s1 \<and> stepTo s1 e s')"
begin

lemma inv_trace: "traceTo s es s' \<Longrightarrow> inv s \<Longrightarrow> inv s'"
proof (induction es arbitrary: s' rule: rev_induct)
  case Nil
  then show ?case using trace_cases [of s "[]" s'] by auto
next
  case (snoc e es)
  then obtain s1 where "traceTo s es s1" "stepTo s1 e s'" using trace_cases [of s "es @ [e]" s'] by auto
  with snoc show ?case using inv_step by blast
qed

end

lemma daemon_trace_cases:
  "daemon_trace L d evs d' \<Longrightarrow>
   evs = [] \<and> d' = d \<or> (\<exists>es0 e d1. evs = es0 @ [e] \<and> daemon_trace L d es0 d1 \<and> daemon_step L d1 e d')"
  by (cases rule: daemon_trace.cases) auto

section \<open>Lemmas on one request\<close>

text \<open>
  The verdict a request publishes, from what its jobs did: a reload failure or a failed job
  is a failure, a pass whose every job succeeded is a success, and anything else (a pass
  cut short with no failure) publishes nothing.
\<close>

definition passVerdict :: "(jobResult \<times> logRec list) list \<Rightarrow> nat \<Rightarrow> bool option" where
  "passVerdict rs n =
     (if 0 < countRuns jr_failed rs then Some False
      else if countRuns jr_success rs = n then Some True
      else None)"

definition verdictOf :: "'l libs \<Rightarrow> int \<Rightarrow> transport \<Rightarrow> 's runEnv \<Rightarrow> bool option" where
  "verdictOf L timeout tr env =
     (case loadConfig (lib_env L) (lib_yaml L) (re_fs env) of
        Inl _ \<Rightarrow> Some False
      | Inr lc \<Rightarrow> passVerdict (jobRuns (re_pass env) (lc_cfg lc) timeout tr) (length (Jobs (lc_cfg lc))))"

definition runVerdict :: "'l libs \<Rightarrow> 's runEnv \<Rightarrow> ('l, 's) daemon \<Rightarrow> bool option" where
  "runVerdict L env d = verdictOf L (dm_timeout d) (dm_transport d) env"

lemmas verdict_defs = runVerdict_def verdictOf_def

definition isScheduled :: "string \<Rightarrow> bool" where
  "isScheduled trig \<longleftrightarrow> trig = triggerStartup \<or> trig = triggerInterval"

lemma runPass_verdict:
  fixes env cfg timeout tr trig
  defines "r \<equiv> fst (runPass env cfg timeout tr trig)"
  shows "passVerdict (jobRuns env cfg timeout tr) (length (Jobs cfg)) =
     (if vouchable r then Some (healthy r) else None)"
    and "healthy r \<and> pr_interrupted r \<longleftrightarrow> \<not> vouchable r"
proof -
  let ?rs = "jobRuns env cfg timeout tr"
  have "length ?rs \<le> length (Jobs cfg)" unfolding jobRuns_def by (rule jobRuns_length)
  with jobRuns_partition [of env cfg timeout tr]
  show "passVerdict ?rs (length (Jobs cfg)) = (if vouchable r then Some (healthy r) else None)"
    by (auto simp: r_def passVerdict_def vouchable_def healthy_def runPass_counts)
  show "healthy r \<and> pr_interrupted r \<longleftrightarrow> \<not> vouchable r"
    using passes.unvouchable_iff [of r] by blast
qed

lemma daemon_run_publishes:
  assumes "daemon_run L env d trig = Some (d', out, lg)"
  shows "dm_health d' = (case runVerdict L env d of None \<Rightarrow> dm_health d
                         | Some b \<Rightarrow> l_set (lib_latch L) (dm_health d) b)"
    and "dm_stamp d' = (case runVerdict L env d of None \<Rightarrow> dm_stamp d
                        | Some b \<Rightarrow> fst (recordScheduled env trig b (dm_stamp d)))"
    and "out_OK out \<longleftrightarrow> runVerdict L env d \<noteq> Some False"
    and "out_OK out \<Longrightarrow> out_Reason out \<noteq> [] \<longleftrightarrow> runVerdict L env d = None"
    and "dm_transport d' = dm_transport d" and "dm_timeout d' = dm_timeout d"
  using assms
  by (auto simp: daemon_run_def verdict_defs runPass_verdict [where trig = trig] case_prod_beta
      applyPassHealth_def cutShortReason_def vouchable_def healthy_def
      split: sum.splits option.splits if_splits)

lemma recordScheduled_external: "\<not> isScheduled trig \<Longrightarrow> recordScheduled env trig ok s = (s, [])"
  by (simp add: recordScheduled_def isScheduled_def)

text \<open>The request's records hold everything \<open>recordScheduled\<close> wrote.\<close>

lemma daemon_run_record_logs:
  assumes "daemon_run L env d trig = Some (d', out, lg)" and "runVerdict L env d = Some b"
  shows "set (snd (recordScheduled env trig b (dm_stamp d))) \<subseteq> set lg"
  using assms
  by (auto simp: daemon_run_def verdict_defs runPass_verdict [where trig = trig] case_prod_beta
      split: sum.splits option.splits if_splits)

text \<open>The documented laws of the last-run record, for an observation \<open>says\<close> of it: the
  verdict it holds, or that there is none.\<close>

definition recordLaws :: "('s \<Rightarrow> bool option) \<Rightarrow> 's runEnv \<Rightarrow> bool" where
  "recordLaws says env \<longleftrightarrow>
     (\<forall>s ok s' e. re_record env s ok = (s', e) \<longrightarrow> says s' = (if e = None then Some ok else says s))
     \<and> (\<forall>s s' e. re_remove env s = (s', e) \<longrightarrow>
          says s' = (if e = None \<or> errIsOpt e ErrNotExist then None else says s))"

definition staleWarned :: "logRec list \<Rightarrow> bool" where
  "staleWarned lg \<longleftrightarrow>
     (\<exists>r \<in> set lg. lr_msg r =
        ''cannot record the pass outcome or remove the stale record; the next boot may trust it'')"

lemma recordScheduled_says:
  assumes "recordLaws says env" and "isScheduled trig"
  shows "says (fst (recordScheduled env trig ok s)) \<in> {Some ok, None}
    \<or> staleWarned (snd (recordScheduled env trig ok s)) \<and> says (fst (recordScheduled env trig ok s)) = says s"
proof -
  obtain s1 e where rc: "re_record env s ok = (s1, e)" by fastforce
  obtain s2 re where rm: "re_remove env s1 = (s2, re)" by fastforce
  from assms(1) rc rm have says: "says s1 = (if e = None then Some ok else says s)"
    "says s2 = (if re = None \<or> errIsOpt re ErrNotExist then None else says s1)"
    unfolding recordLaws_def by blast+
  show ?thesis
  proof (cases "e = None \<or> re = None \<or> errIsOpt re ErrNotExist")
    case True
    with assms(2) rc rm says show ?thesis by (cases e) (auto simp: recordScheduled_def isScheduled_def)
  next
    case False
    with assms(2) rc rm says show ?thesis by (cases e) (auto simp: recordScheduled_def isScheduled_def staleWarned_def)
  qed
qed

lemma staleWarned_mono: "set lg \<subseteq> set lg' \<Longrightarrow> staleWarned lg \<Longrightarrow> staleWarned lg'"
  by (auto simp: staleWarned_def)

lemma adviseConfig_total:
  assumes "containsRefl contains" and "sortPermutes sortFn"
  shows "\<exists>l. adviseConfig contains sortFn tbl cfg = Some l"
  using warnSharedDestinations_total [OF assms, of tbl "Jobs cfg"] by (auto simp: adviseConfig_def)

lemma daemon_run_total:
  assumes "containsRefl (lib_contains L)" and "sortPermutes (lib_sort L)"
  shows "\<exists>d' out lg. daemon_run L env d trig = Some (d', out, lg)"
proof (cases "loadConfig (lib_env L) (lib_yaml L) (re_fs env)")
  case (Inl err)
  then show ?thesis by (simp add: daemon_run_def case_prod_beta)
next
  case (Inr lc)
  obtain l where "adviseConfig (lib_contains L) (lib_sort L) (env_lower (lib_env L)) (lc_cfg lc) = Some l"
    using adviseConfig_total [OF assms] by blast
  with Inr show ?thesis by (cases "lc_digest lc = dm_advised d") (simp_all add: daemon_run_def case_prod_beta)
qed

lemma daemon_run_up:
  assumes "latchLaws (lib_latch L)" and "daemon_run L env d trig = Some (d', out, lg)"
  shows "l_up (lib_latch L) (dm_health d') \<longleftrightarrow>
      (case runVerdict L env d of None \<Rightarrow> l_up (lib_latch L) (dm_health d)
       | Some b \<Rightarrow> b \<and> \<not> l_draining (lib_latch L) (dm_health d))"
    and "l_draining (lib_latch L) (dm_health d') = l_draining (lib_latch L) (dm_health d)"
  using assms(1) by (auto simp: daemon_run_publishes(1) [OF assms(2)] latchLaws_def split: option.splits)

section \<open>Lemmas on the running daemon\<close>

definition drainedDown :: "'l libs \<Rightarrow> ('l, 's) daemon \<Rightarrow> bool" where
  "drainedDown L d \<longleftrightarrow> l_draining (lib_latch L) (dm_health d) \<and> \<not> l_up (lib_latch L) (dm_health d)"

lemma beginShutdown_drains: "latchLaws (lib_latch L) \<Longrightarrow> drainedDown L (beginShutdown L d)"
  by (simp add: drainedDown_def beginShutdown_def latchLaws_def)

text \<open>Two invariants of every step: the settings read at boot are never changed, and a
  draining daemon's marker stays down.\<close>

interpretation settings: step_invariant "daemon_step L" "daemon_trace L" "\<lambda>d. dm_transport d = tr \<and> dm_timeout d = t" for L tr t
proof unfold_locales
  show "dm_transport d = tr \<and> dm_timeout d = t \<Longrightarrow> daemon_step L d ev d' \<Longrightarrow> dm_transport d' = tr \<and> dm_timeout d' = t"
    for d ev d' by (auto elim!: daemon_step.cases simp: daemon_run_publishes beginShutdown_def)
qed (rule daemon_trace_cases)

interpretation drained: step_invariant "daemon_step L" "daemon_trace L"
  "\<lambda>d. latchLaws (lib_latch L) \<and> drainedDown L d" for L
proof unfold_locales
  show "daemon_trace L d evs d' \<Longrightarrow>
      evs = [] \<and> d' = d \<or> (\<exists>es0 e d1. evs = es0 @ [e] \<and> daemon_trace L d es0 d1 \<and> daemon_step L d1 e d')"
    for d evs d' by (rule daemon_trace_cases)
  fix d ev d'
  assume inv: "latchLaws (lib_latch L) \<and> drainedDown L d" and "daemon_step L d ev d'"
  from this(2) show "latchLaws (lib_latch L) \<and> drainedDown L d'"
  proof cases
    case (serve env trig out lg)
    with inv show ?thesis
      by (auto simp: drainedDown_def daemon_run_up split: option.splits)
  next
    case shutdown
    with inv show ?thesis by (simp add: beginShutdown_drains)
  qed
qed

lemma trace_Cons:
  assumes "daemon_trace L d1 evs d2" and "daemon_step L d ev d1"
  shows "daemon_trace L d (ev # evs) d2"
  using assms
proof (induction rule: daemon_trace.induct)
  case (trace_nil d1)
  with daemon_trace.trace_snoc [OF daemon_trace.trace_nil trace_nil(1)] show ?case by simp
next
  case (trace_snoc d1 evs d2 ev' d3)
  then show ?case using daemon_trace.trace_snoc [of L d "ev # evs" d2 ev' d3] by simp
qed

lemma trace_append:
  "daemon_trace L d2 evs' d3 \<Longrightarrow> daemon_trace L d1 evs d2 \<Longrightarrow> daemon_trace L d1 (evs @ evs') d3"
proof (induction rule: daemon_trace.induct)
  case (trace_snoc d evs' d2 ev d3)
  then show ?case using daemon_trace.trace_snoc [of L d1 "evs @ evs'"] by simp
qed simp

lemma serveAll_trace:
  "serveAll L d reqs = Some (d', outs, lg) \<Longrightarrow>
   daemon_trace L d (map (\<lambda>(trig, env). ServeRequest trig env) reqs) d' \<and> length outs = length reqs"
proof (induction reqs arbitrary: d outs lg)
  case Nil
  then show ?case by (simp add: trace_nil)
next
  case (Cons q reqs)
  obtain trig env where q: "q = (trig, env)" by fastforce
  from Cons.prems q obtain d1 out lg1 outs1 lg2 where
    "daemon_run L env d trig = Some (d1, out, lg1)" "serveAll L d1 reqs = Some (d', outs1, lg2)" "outs = out # outs1"
    by (auto split: option.splits)
  with Cons.IH [of d1 outs1 lg2] q show ?case
    by (auto intro!: trace_Cons daemon_step.serve)
qed

lemma serveAll_total:
  assumes "containsRefl (lib_contains L)" and "sortPermutes (lib_sort L)"
  shows "\<exists>d' outs lg. serveAll L d reqs = Some (d', outs, lg)"
proof (induction reqs arbitrary: d)
  case (Cons q reqs)
  obtain trig env where q: "q = (trig, env)" by fastforce
  obtain d1 out lg where "daemon_run L env d trig = Some (d1, out, lg)" using daemon_run_total [OF assms] by blast
  moreover obtain d2 outs lg2 where "serveAll L d1 reqs = Some (d2, outs, lg2)" using Cons.IH by blast
  ultimately show ?case by (simp add: q)
qed simp

lemma trace_split:
  "daemon_trace L d (xs @ ys) d' \<Longrightarrow> \<exists>d1. daemon_trace L d xs d1 \<and> daemon_trace L d1 ys d'"
proof (induction ys arbitrary: d' rule: rev_induct)
  case Nil
  then show ?case by (auto intro: trace_nil)
next
  case (snoc y ys)
  from daemon_trace_cases [OF snoc.prems] obtain d2 where
    "daemon_trace L d (xs @ ys) d2" "daemon_step L d2 y d'" by auto
  with snoc.IH [of d2] show ?case by (blast intro: trace_snoc)
qed

lemma trace_single: "daemon_trace L d [ev] d' \<Longrightarrow> daemon_step L d ev d'"
  using daemon_trace_cases [of L d "[ev]" d'] daemon_trace_cases [of L d "[]"] by fastforce

lemma runDaemon_boot_Inr:
  assumes "runDaemon_boot L env = (Inr b, lg)"
  obtains lc hk where "loadConfig (lib_env L) (lib_yaml L) (be_fs env) = Inr lc"
    "classifyKnownHosts (be_fs env) knownHostsPath = Inr hk" "be_listen env = None"
    "dm_transport (bo_daemon b) = fst (loadTransport (lib_env L) hk)"
    "dm_timeout (bo_daemon b) = fst (loadSyncTimeout (lib_env L))"
    "dm_advised (bo_daemon b) = lc_digest lc" "dm_stamp (bo_daemon b) = be_stamp env"
  using assms
  by (auto simp: runDaemon_boot_def Let_def case_prod_beta split: sum.splits option.splits if_splits)

text \<open>The daemon that a successful boot hands over.\<close>

definition bootState ::
  "'l libs \<Rightarrow> 's bootEnv \<Rightarrow> loadedConfig \<Rightarrow> hostKeyMode \<Rightarrow> int \<Rightarrow> bool \<Rightarrow> ('l, 's) booted" where
  "bootState L env lc hk interval builtin =
     \<lparr>bo_daemon =
        \<lparr>dm_health = l_set (lib_latch L)
           (l_new (lib_latch L) (l_cleanup (lib_latch L) (be_marker env)))
           (\<not> builtin \<or> fst (remainingAtBoot env interval builtin) \<noteq> 0),
         dm_stamp = be_stamp env, dm_transport = fst (loadTransport (lib_env L) hk),
         dm_timeout = fst (loadSyncTimeout (lib_env L)), dm_advised = lc_digest lc\<rparr>,
      bo_ticker = startTicker interval builtin (fst (remainingAtBoot env interval builtin)),
      bo_startupDue = (fst (remainingAtBoot env interval builtin) = 0)\<rparr>"

lemma runDaemon_boot_state:
  assumes "runDaemon_boot L env = (Inr b, lg)" and "loadInterval (lib_env L) = (interval, builtin)"
  obtains lc hk where "loadConfig (lib_env L) (lib_yaml L) (be_fs env) = Inr lc"
    "classifyKnownHosts (be_fs env) knownHostsPath = Inr hk" "be_listen env = None"
    "b = bootState L env lc hk interval builtin"
  using assms
  by (auto simp: runDaemon_boot_def bootState_def Let_def case_prod_beta split: sum.splits option.splits)

lemma runDaemon_boot_ok:
  assumes "loadConfig (lib_env L) (lib_yaml L) (be_fs env) = Inr lc"
    and "classifyKnownHosts (be_fs env) knownHostsPath = Inr hk" and "be_listen env = None"
    and "adviseConfig (lib_contains L) (lib_sort L) (env_lower (lib_env L)) (lc_cfg lc) = Some l"
  shows "\<exists>b lg. runDaemon_boot L env = (Inr b, lg)"
  using assms by (simp add: runDaemon_boot_def Let_def case_prod_beta)

lemma runDaemon_boot_no_panic:
  assumes "containsRefl (lib_contains L)" and "sortPermutes (lib_sort L)"
  shows "fst (runDaemon_boot L env) \<noteq> Inl BootPanic"
proof (cases "loadConfig (lib_env L) (lib_yaml L) (be_fs env)")
  case (Inl e)
  then show ?thesis by (simp add: runDaemon_boot_def Let_def)
next
  case (Inr lc)
  obtain l where "adviseConfig (lib_contains L) (lib_sort L) (env_lower (lib_env L)) (lc_cfg lc) = Some l"
    using adviseConfig_total [OF assms] by blast
  with Inr show ?thesis
    by (auto simp: runDaemon_boot_def Let_def case_prod_beta split: sum.split option.split)
qed

text \<open>The outcomes of served requests, in order.\<close>

definition verdictsOK :: "'l libs \<Rightarrow> ('l, 's) daemon \<Rightarrow> (string \<times> 's runEnv) list \<Rightarrow> bool list" where
  "verdictsOK L d reqs = map (\<lambda>(trig, env). verdictOf L (dm_timeout d) (dm_transport d) env \<noteq> Some False) reqs"

lemma serveAll_outcomes:
  "serveAll L d reqs = Some (d', outs, lg) \<Longrightarrow>
   map out_OK outs = verdictsOK L d reqs \<and> dm_transport d' = dm_transport d \<and> dm_timeout d' = dm_timeout d"
proof (induction reqs arbitrary: d outs lg)
  case (Cons q reqs)
  obtain trig env where q: "q = (trig, env)" by fastforce
  from Cons.prems q obtain d1 out lg1 outs1 lg2 where
    d1: "daemon_run L env d trig = Some (d1, out, lg1)" and rest: "serveAll L d1 reqs = Some (d', outs1, lg2)"
    and "outs = out # outs1"
    by (auto split: option.splits)
  with Cons.IH [OF rest] daemon_run_publishes(3,5,6) [OF d1] q show ?case
    by (simp add: verdictsOK_def runVerdict_def)
qed (simp add: verdictsOK_def)

lemma beginShutdown_settings [simp]:
  "dm_transport (beginShutdown L d) = dm_transport d" "dm_timeout (beginShutdown L d) = dm_timeout d"
  by (simp_all add: beginShutdown_def)

lemma verdictsOK_cong:
  "dm_transport d' = dm_transport d \<Longrightarrow> dm_timeout d' = dm_timeout d \<Longrightarrow> verdictsOK L d' reqs = verdictsOK L d reqs"
  by (simp add: verdictsOK_def)

lemma runDaemon_clean:
  assumes "latchLaws (lib_latch L)" and "containsRefl (lib_contains L)" and "sortPermutes (lib_sort L)"
  shows "fst (snd (runDaemon L env before flight queued)) = Some False
    \<and> (case fst (runDaemon L env before flight queued) of
         DaemonErr e \<Rightarrow> e \<noteq> BootPanic \<and> fst (runDaemon_boot L env) = Inl e
       | DaemonPanic \<Rightarrow> False
       | DaemonStopped outs \<Rightarrow>
           (\<exists>b. fst (runDaemon_boot L env) = Inr b
              \<and> map out_OK outs = verdictsOK L (bo_daemon b) (before @ inFlight flight)
                  @ map (\<lambda>trig. out_OK (lib_cancelled L trig)) queued))"
proof -
  have down: "l_cleanup (lib_latch L) m = False" for m using assms(1) by (simp add: latchLaws_def)
  obtain r lg where boot: "runDaemon_boot L env = (r, lg)" by fastforce
  show ?thesis
  proof (cases r)
    case (Inl e)
    with boot runDaemon_boot_no_panic [OF assms(2,3), of env] show ?thesis by (simp add: runDaemon_def down)
  next
    case (Inr b)
    obtain d1 outs1 lg1 where s1: "serveAll L (bo_daemon b) before = Some (d1, outs1, lg1)"
      using serveAll_total [OF assms(2,3)] by blast
    obtain d2 outs2 lg2 where s2: "serveAll L (beginShutdown L d1) (inFlight flight) = Some (d2, outs2, lg2)"
      using serveAll_total [OF assms(2,3)] by blast
    have "map out_OK (outs1 @ outs2) = verdictsOK L (bo_daemon b) (before @ inFlight flight)"
      using serveAll_outcomes [OF s1] serveAll_outcomes [OF s2]
        verdictsOK_cong [of "beginShutdown L d1" "bo_daemon b" L "inFlight flight"]
      by (simp add: verdictsOK_def)
    with boot Inr s1 s2 show ?thesis by (simp add: runDaemon_def down comp_def)
  qed
qed

section \<open>A concrete daemon\<close>

definition sampleLibs :: "(bool \<times> bool) libs" where
  "sampleLibs =
     \<lparr>lib_env = sampleEnv, lib_yaml = sampleYaml, lib_contains = sampleContains, lib_sort = sampleSort,
      lib_latch = pairLatch,
      lib_cancelled = (\<lambda>trig. \<lparr>out_OK = False, out_Duration = 0, out_Reason = ''shutting down''\<rparr>)\<rparr>"

definition sampleRunEnv :: "bool option runEnv" where
  "sampleRunEnv =
     \<lparr>re_fs = sampleFs, re_pass = \<lparr>pe_jobs = (\<lambda>i. sampleJobEnv [''a.jpg'']), pe_start = 0, pe_end = 5\<rparr>,
      re_start = 0, re_end = 5, re_record = (\<lambda>s ok. (Some ok, None)), re_remove = (\<lambda>s. (None, None))\<rparr>"

definition sampleDaemon :: "((bool \<times> bool), bool option) daemon" where
  "sampleDaemon =
     \<lparr>dm_health = (False, False), dm_stamp = None, dm_transport = sampleTransport, dm_timeout = 600000000000,
      dm_advised = []\<rparr>"

definition sampleBoot :: "bool option bootEnv" where
  "sampleBoot =
     \<lparr>be_marker = True, be_fs = sampleFs, be_listen = None, be_stamp = Some True,
      be_remaining = (\<lambda>s i. if s = Some True then 1 else 0), be_openWrite = (\<lambda>p. Inr None), be_last = (\<lambda>s. 0), be_cause = ErrCanceled\<rparr>"

lemma sampleLibs_laws:
  "latchLaws (lib_latch sampleLibs)" "containsRefl (lib_contains sampleLibs)" "sortPermutes (lib_sort sampleLibs)"
  using sampleLaws latchLaws_pairLatch by (simp_all add: sampleLibs_def)

lemma sampleLoad: "loadConfig sampleEnv sampleYaml sampleFs = Inr \<lparr>lc_cfg = \<lparr>Jobs = [sampleJob]\<rparr>, lc_digest = sum256 ''key''\<rparr>"
proof -
  have "validConfig sampleFs \<lparr>Jobs = [sampleJob]\<rparr>"
    using sampleJob_valid by (simp add: validConfig_def sampleJob_def)
  then have "config_validate sampleFs \<lparr>Jobs = [sampleJob]\<rparr> = None" by (simp only: config_validate_iff)
  then show ?thesis by (simp add: loadConfig_def sampleFs_read sampleYaml_parse)
qed

lemma sampleRun_verdict: "runVerdict sampleLibs sampleRunEnv d = Some True"
proof -
  have "sourceIsEmpty (je_dirs (sampleJobEnv [''a.jpg''])) (Local sampleJob) = Inr False"
    by (simp add: sampleJobEnv_empty globalExcludes_def)
  then have run: "runJob (sampleJobEnv [''a.jpg'']) sampleJob t tr = judgeRun sampleJob 0 sampleRun" for t tr
    by (simp add: runJob_def) (simp add: sampleJobEnv_def)
  have "jr_success (fst (judgeRun sampleJob 0 sampleRun))"
    unfolding judgeRun_success by (simp add: transferDone_def sampleRun_def)
  then have "jr_success (fst (judgeRun sampleJob 0 sampleRun))" "\<not> jr_failed (fst (judgeRun sampleJob 0 sampleRun))"
    by (simp_all add: jr_failed_def)
  moreover have "je_ctxErr (sampleJobEnv [''a.jpg'']) = None" by (simp add: sampleJobEnv_def)
  ultimately show ?thesis
    by (simp add: verdict_defs sampleLibs_def sampleRunEnv_def sampleLoad jobRuns_def jobRunsFrom_Cons run passVerdict_def)
qed

lemma sampleRun_total: "\<exists>d' out lg. daemon_run sampleLibs sampleRunEnv sampleDaemon trig = Some (d', out, lg)"
  by (rule daemon_run_total [OF sampleLibs_laws(2,3)])

lemma sampleKnownHosts: "classifyKnownHosts (be_fs sampleBoot) knownHostsPath = Inr HostKeyStrict"
proof -
  have fs: "openRegular sampleFs knownHostsPath = Inr (sampleFile ''key'')"
    unfolding openRegular_iff by (simp add: regularAt_def sampleFs_def sampleFile_def)
  show ?thesis
    by (simp add: sampleBoot_def classifyKnownHosts_def fs)
       (simp add: sampleFile_def goRunes_isAscii isAscii_def isSpaceRune_def)
qed

lemma sampleBoot_any: "be_fs env = sampleFs \<Longrightarrow> be_listen env = None \<Longrightarrow> \<exists>b lg. runDaemon_boot sampleLibs env = (Inr b, lg)"
proof -
  assume env: "be_fs env = sampleFs" "be_listen env = None"
  have load: "loadConfig (lib_env sampleLibs) (lib_yaml sampleLibs) (be_fs env) =
      Inr \<lparr>lc_cfg = \<lparr>Jobs = [sampleJob]\<rparr>, lc_digest = sum256 ''key''\<rparr>"
    using sampleLoad env by (simp add: sampleLibs_def)
  have "classifyKnownHosts (be_fs env) knownHostsPath = Inr HostKeyStrict"
    using sampleKnownHosts env by (simp add: sampleBoot_def)
  with env runDaemon_boot_ok [OF load] adviseConfig_total [OF sampleLibs_laws(2,3)]
  show ?thesis by blast
qed

lemma sampleBoot_ok: "\<exists>b lg. runDaemon_boot sampleLibs sampleBoot = (Inr b, lg)"
  by (rule sampleBoot_any) (simp_all add: sampleBoot_def)

section \<open>Properties\<close>

text \<open>C3 (functional): one request publishes its verdict. The marker is raised exactly by a
  pass whose every job succeeded, on a daemon that is not draining; a failed job or a failed
  reload lowers it; a pass cut short with no failure leaves it as it was. The outcome is OK
  unless the verdict is a failure, and carries a reason exactly when the pass was cut short.\<close>

theorem daemon_run_marker:
  assumes "latchLaws (lib_latch L)" and "daemon_run L env d trig = Some (d', out, lg)"
  shows "(l_up (lib_latch L) (dm_health d') \<longleftrightarrow>
            (case runVerdict L env d of
               Some b \<Rightarrow> b \<and> \<not> l_draining (lib_latch L) (dm_health d)
             | None \<Rightarrow> l_up (lib_latch L) (dm_health d)))
    \<and> (out_OK out \<longleftrightarrow> runVerdict L env d \<noteq> Some False)
    \<and> (out_OK out \<longrightarrow> (out_Reason out \<noteq> [] \<longleftrightarrow> runVerdict L env d = None))"
  using daemon_run_up(1) [OF assms] daemon_run_publishes(3,4) [OF assms(2)] by (auto split: option.split)

theorem daemon_run_marker_witness:
  "\<exists>d' out lg. daemon_run sampleLibs sampleRunEnv sampleDaemon ''external'' = Some (d', out, lg)
     \<and> l_up (lib_latch sampleLibs) (dm_health d') \<and> out_OK out"
proof -
  from sampleRun_total [of "''external''"] obtain d' out lg where
    run: "daemon_run sampleLibs sampleRunEnv sampleDaemon ''external'' = Some (d', out, lg)" by blast
  have "\<not> l_draining (lib_latch sampleLibs) (dm_health sampleDaemon)"
    by (simp add: sampleLibs_def pairLatch_def sampleDaemon_def)
  with daemon_run_marker [OF sampleLibs_laws(1) run] have "l_up (lib_latch sampleLibs) (dm_health d')" "out_OK out"
    by (simp_all add: sampleRun_verdict)
  with run show ?thesis by blast
qed

text \<open>C5 (safety): the last-run record. A triggered request and a pass cut short without a
  failure never touch it. After a scheduled request with a verdict, the record holds that
  verdict or is gone, so a failed pass leaves no earlier success behind; when neither the
  write nor the removal succeeded, a record of the log says so.\<close>

theorem daemon_run_record:
  assumes "recordLaws says env" and "daemon_run L env d trig = Some (d', out, lg)"
  shows "(\<not> isScheduled trig \<or> runVerdict L env d = None \<longrightarrow> dm_stamp d' = dm_stamp d)
    \<and> (\<forall>b. isScheduled trig \<and> runVerdict L env d = Some b \<longrightarrow>
         says (dm_stamp d') = Some b \<or> says (dm_stamp d') = None \<or> staleWarned lg)"
proof (intro conjI impI allI)
  assume "\<not> isScheduled trig \<or> runVerdict L env d = None"
  then show "dm_stamp d' = dm_stamp d"
    by (auto simp: daemon_run_publishes(2) [OF assms(2)] recordScheduled_external split: option.split)
next
  fix b assume b: "isScheduled trig \<and> runVerdict L env d = Some b"
  then have "dm_stamp d' = fst (recordScheduled env trig b (dm_stamp d))"
    by (simp add: daemon_run_publishes(2) [OF assms(2)])
  with recordScheduled_says [OF assms(1), of trig b "dm_stamp d"] b
    staleWarned_mono [OF daemon_run_record_logs [OF assms(2), of b]]
  show "says (dm_stamp d') = Some b \<or> says (dm_stamp d') = None \<or> staleWarned lg" by auto
qed

theorem daemon_run_record_witness:
  "\<exists>d' out lg. daemon_run sampleLibs sampleRunEnv sampleDaemon triggerInterval = Some (d', out, lg)
     \<and> (dm_stamp d' = Some True \<or> dm_stamp d' = None \<or> staleWarned lg)"
proof -
  have laws: "recordLaws id sampleRunEnv" by (auto simp: recordLaws_def sampleRunEnv_def)
  from sampleRun_total [of triggerInterval] obtain d' out lg where
    run: "daemon_run sampleLibs sampleRunEnv sampleDaemon triggerInterval = Some (d', out, lg)" by blast
  from daemon_run_record [OF laws run] run show ?thesis
    by (auto simp: sampleRun_verdict isScheduled_def)
qed

text \<open>C4 (safety): once the shutdown has begun the marker stays down: in every run of the
  daemon that contains the beginning of the shutdown, whatever requests are served before
  and after it, a late healthy verdict never raises the marker again.\<close>

theorem shutdown_keeps_marker_down:
  assumes "latchLaws (lib_latch L)" and "daemon_trace L d evs d'" and "BeginShutdown \<in> set evs"
  shows "\<not> l_up (lib_latch L) (dm_health d')"
proof -
  from assms(3) obtain xs ys where evs: "evs = (xs @ [BeginShutdown]) @ ys" by (auto simp: in_set_conv_decomp)
  from trace_split [OF assms(2) [unfolded evs]] obtain d2 where
    d2: "daemon_trace L d (xs @ [BeginShutdown]) d2" "daemon_trace L d2 ys d'" by blast
  from daemon_trace_cases [OF d2(1)] obtain d1 where "daemon_step L d1 BeginShutdown d2" by auto
  then have "drainedDown L d2" by (auto elim!: step_shutdownE simp: beginShutdown_drains [OF assms(1)])
  with drained.inv_trace [OF d2(2)] assms(1) show ?thesis by (simp add: drainedDown_def)
qed

theorem shutdown_keeps_marker_down_witness:
  "\<exists>d'. daemon_trace sampleLibs sampleDaemon [BeginShutdown, ServeRequest triggerInterval sampleRunEnv] d'
     \<and> \<not> l_up (lib_latch sampleLibs) (dm_health d')"
proof -
  obtain d' out lg where
    "daemon_run sampleLibs sampleRunEnv (beginShutdown sampleLibs sampleDaemon) triggerInterval = Some (d', out, lg)"
    using daemon_run_total [OF sampleLibs_laws(2,3)] by blast
  then have tr: "daemon_trace sampleLibs sampleDaemon [BeginShutdown, ServeRequest triggerInterval sampleRunEnv] d'"
    by (intro trace_Cons [of _ "beginShutdown sampleLibs sampleDaemon"] trace_Cons [OF trace_nil]
        daemon_step.serve daemon_step.shutdown)
  with shutdown_keeps_marker_down [OF sampleLibs_laws(1) tr] show ?thesis by auto
qed

text \<open>Serving a list of requests one after the other is a run of the
  transition system: every request gets its outcome, and the transport and the timeout read
  at boot are the same afterwards.\<close>

lemma serveAll_refines_trace:
  assumes "serveAll L d reqs = Some (d', outs, lg)"
  shows "daemon_trace L d (map (\<lambda>(trig, env). ServeRequest trig env) reqs) d'
    \<and> length outs = length reqs \<and> dm_transport d' = dm_transport d \<and> dm_timeout d' = dm_timeout d"
  using serveAll_trace [OF assms] settings.inv_trace by blast

text \<open>C19 (liveness): the daemon process. Under the documented laws of the packages it calls it
  never panics, neither in an advisory nor while it captures a job's stderr. It returns an
  error exactly when its boot fails. Otherwise every request gets an outcome, in order: each
  one that was run, the one in flight at the shutdown included, is OK exactly when its
  config loaded and no job failed, and each one still queued at the shutdown is not run and
  not OK. In both cases no health marker is left behind.\<close>

theorem runDaemon_ends_clean:
  assumes "latchLaws (lib_latch L)" and "containsRefl (lib_contains L)" and "sortPermutes (lib_sort L)"
    and "\<forall>trig. \<not> out_OK (lib_cancelled L trig)"
  shows "fst (snd (runDaemon L env before flight queued)) = Some False
    \<and> (case fst (runDaemon L env before flight queued) of
         DaemonErr e \<Rightarrow> e \<noteq> BootPanic \<and> fst (runDaemon_boot L env) = Inl e
       | DaemonPanic \<Rightarrow> False
       | DaemonStopped outs \<Rightarrow>
           (\<exists>b. fst (runDaemon_boot L env) = Inr b
              \<and> map out_OK outs =
                  map (\<lambda>(trig, renv).
                         verdictOf L (dm_timeout (bo_daemon b)) (dm_transport (bo_daemon b)) renv \<noteq> Some False)
                    (before @ (case flight of None \<Rightarrow> [] | Some q \<Rightarrow> [q]))
                  @ replicate (length queued) False))"
proof -
  have eq: "map (\<lambda>trig. out_OK (lib_cancelled L trig)) queued = replicate (length queued) False"
    using assms(4) by (induction queued) simp_all
  show ?thesis
    using runDaemon_clean [OF assms(1-3), of env before flight queued] unfolding verdictsOK_def inFlight_def eq .
qed

theorem runDaemon_ends_clean_witness:
  "fst (snd (runDaemon sampleLibs sampleBoot [(triggerInterval, sampleRunEnv)] None [''external''])) = Some False"
proof -
  have "\<forall>trig. \<not> out_OK (lib_cancelled sampleLibs trig)" by (simp add: sampleLibs_def)
  from runDaemon_ends_clean [OF sampleLibs_laws this, of sampleBoot "[(triggerInterval, sampleRunEnv)]" None "[''external'']"]
  show ?thesis by blast
qed

text \<open>C20 (safety): what a boot that succeeded has done. The config was loaded, the host-key
  posture was decided and the socket bound; the daemon uses the posture it decided; and the marker is up at boot exactly when no startup pass is due, which in built-in mode
  means that the record grants time and can be rewritten.\<close>

theorem runDaemon_boot_decisions:
  assumes "latchLaws (lib_latch L)" and "runDaemon_boot L env = (Inr b, lg)"
    and "\<forall>s i. 0 \<le> be_remaining env s i" and "loadInterval (lib_env L) = (interval, builtin)"
  shows "(\<exists>lc. loadConfig (lib_env L) (lib_yaml L) (be_fs env) = Inr lc \<and> dm_advised (bo_daemon b) = lc_digest lc)
    \<and> classifyKnownHosts (be_fs env) knownHostsPath = Inr (hostKeys (dm_transport (bo_daemon b)))
    \<and> be_listen env = None
    \<and> (bo_ticker b = None \<longleftrightarrow> \<not> builtin)
    \<and> (\<forall>tp. bo_ticker b = Some tp \<longrightarrow>
         (tp_startup tp \<longleftrightarrow> be_remaining env (be_stamp env) interval = 0 \<or> openRecordForWrite (be_openWrite env) stampPath \<noteq> None)
         \<and> (tp_startup tp \<longleftrightarrow> tp_firstDelay tp = 0))
    \<and> (l_up (lib_latch L) (dm_health (bo_daemon b)) \<longleftrightarrow>
         (case bo_ticker b of None \<Rightarrow> True | Some tp \<Rightarrow> \<not> tp_startup tp))"
proof -
  have rem: "fst (remainingAtBoot env interval builtin) = 0 \<longleftrightarrow>
      \<not> builtin \<or> be_remaining env (be_stamp env) interval = 0 \<or> openRecordForWrite (be_openWrite env) stampPath \<noteq> None"
    using assms(3) by (auto simp: remainingAtBoot_def Let_def less_le split: option.split)
  obtain lc hk where
    b: "loadConfig (lib_env L) (lib_yaml L) (be_fs env) = Inr lc"
      "classifyKnownHosts (be_fs env) knownHostsPath = Inr hk" "be_listen env = None"
      "b = bootState L env lc hk interval builtin"
    by (rule runDaemon_boot_state [OF assms(2,4)])
  with assms(1) rem show ?thesis
    by (auto simp: bootState_def startTicker_def latchLaws_def loadTransport_hostKeys)
qed

theorem runDaemon_boot_decisions_witness:
  "\<exists>b lg. runDaemon_boot sampleLibs sampleBoot = (Inr b, lg) \<and> l_up (lib_latch sampleLibs) (dm_health (bo_daemon b))
     \<and> hostKeys (dm_transport (bo_daemon b)) = HostKeyStrict"
proof -
  obtain b lg where boot: "runDaemon_boot sampleLibs sampleBoot = (Inr b, lg)" using sampleBoot_ok by blast
  have iv: "loadInterval (lib_env sampleLibs) = (defaultInterval, True)"
    by (simp add: loadInterval_def sampleLibs_def sampleEnv_def)
  have rem: "\<forall>s i. 0 \<le> be_remaining sampleBoot s i" by (simp add: sampleBoot_def)
  from runDaemon_boot_decisions [OF sampleLibs_laws(1) boot rem iv] sampleKnownHosts boot show ?thesis
    by (auto simp: sampleBoot_def openRecordForWrite_def split: option.splits)
qed

end
