(* ===== verification/Client.thy ===== *)
theory Client
  imports Daemon
begin

text \<open>
  The client and the entry point (client.go, main.go): \<open>runClient\<close>, \<open>finishResult\<close>,
  \<open>dispatch\<close> and \<open>main\<close>.

  \<open>trigger.Submit\<close> is not part of the repository. What one call of it does is the record
  \<open>submission\<close>: the events it hands to the callback, the final event and its error.
\<close>

section \<open>Definitions\<close>

datatype eventKind = EventQueued | EventStarted | EventOther

record triggerEvent =
  ev_Kind :: eventKind
  ev_OK :: bool
  ev_DurationMs :: int
  ev_Reason :: string

record submission =
  sb_events :: "triggerEvent list"
  sb_final :: triggerEvent
  sb_err :: "goerr option"

definition failedJobReason :: string where
  "failedJobReason = ''a sync job failed (see the container log stream)''"

definition finishResult :: "triggerEvent \<Rightarrow> int \<times> logRec list" where
  "finishResult ev =
     (if ev_OK ev then
        if ev_Reason ev \<noteq> []
        then (0, [slogWarn ''triggered sync ended with a caveat''
                    [(''duration_ms'', AInt (ev_DurationMs ev)), (''reason'', AStr (ev_Reason ev))]])
        else (0, [slogInfo ''triggered sync complete'' [(''duration_ms'', AInt (ev_DurationMs ev))]])
      else (1, [slogError ''triggered sync failed''
                  [(''duration_ms'', AInt (ev_DurationMs ev)),
                   (''reason'', AStr (cmpOr (ev_Reason ev) failedJobReason))]]))"

definition startedLogs :: string where
  "startedLogs = ''full per-job output is on the container log stream''"

definition unreachableHint :: string where
  "unreachableHint = ''nothing is accepting on this socket: the daemon may be starting or shutting down, or this exec is not the container's user (the socket is owner-only)''"

text \<open>The callback: the flag \<open>accepted\<close> and the records it writes.\<close>

fun clientEvents :: "bool \<Rightarrow> triggerEvent list \<Rightarrow> bool \<times> logRec list" where
  "clientEvents accepted [] = (accepted, [])"
| "clientEvents accepted (ev # evs) =
     (case ev_Kind ev of
        EventQueued \<Rightarrow>
          (case clientEvents True evs of (a, lg) \<Rightarrow> (a, slogInfo ''triggered sync accepted'' [] # lg))
      | EventStarted \<Rightarrow>
          (case clientEvents accepted evs of (a, lg) \<Rightarrow> (a, slogInfo ''triggered sync started'' [(''logs'', AStr startedLogs)] # lg))
      | EventOther \<Rightarrow> clientEvents accepted evs)"

definition runClient :: "submission \<Rightarrow> string \<Rightarrow> int \<times> logRec list" where
  "runClient sb sock =
     (case clientEvents False (sb_events sb) of
        (accepted, lg) \<Rightarrow>
          if errIsOpt (sb_err sb) ErrUnreachable then
            (1, lg @ [slogError ''cannot reach the scheduler daemon''
                        [(''path'', AStr sock), (''error'', AErr (the (sb_err sb))),
                         (''hint'', AStr unreachableHint)]])
          else if errIsOpt (sb_err sb) ErrSend then
            (1, lg @ [slogError ''cannot send sync request'' [(''error'', AErr (the (sb_err sb)))]])
          else if errIsOpt (sb_err sb) ErrCanceled then
            (1, lg @ [slogWarn ''this trigger was interrupted while waiting''
                        [(''acceptance'', AStr (if accepted then ''observed'' else ''unknown'')),
                         (''error'', AErr (the (sb_err sb)))]])
          else if sb_err sb \<noteq> None then
            (1, lg @ [slogError ''the pass did not report a result'' [(''error'', AErr (the (sb_err sb)))]])
          else (case finishResult (sb_final sb) of (code, lgF) \<Rightarrow> (code, lg @ lgF)))"

text \<open>What the process meets: the boot and the requests of \<open>daemon\<close>, the submission of
  \<open>sync\<close>.\<close>

record 's processEnv =
  px_boot :: "'s bootEnv"
  px_before :: "(string \<times> 's runEnv) list"
  px_flight :: "(string \<times> 's runEnv) option"
  px_queued :: "string list"
  px_submission :: submission

text \<open>The exit code of the \<open>daemon\<close> case. A panic exits with 2, the status of the Go
  runtime.\<close>

definition daemonExit :: "daemonEnd \<Rightarrow> int" where
  "daemonExit e =
     (case e of DaemonErr BootPanic \<Rightarrow> 2 | DaemonErr _ \<Rightarrow> 1 | DaemonPanic \<Rightarrow> 2 | DaemonStopped _ \<Rightarrow> 0)"

text \<open>The first argument after the program's name, or no text.\<close>

definition subcommand :: "string list \<Rightarrow> string" where
  "subcommand args = (if 1 < length args then args ! 1 else [])"

definition dispatch :: "'l libs \<Rightarrow> 's processEnv \<Rightarrow> string list \<Rightarrow> int \<times> logRec list" where
  "dispatch L env args =
     (let cmd = subcommand args;
          (level, lgL) = setupLogger (lib_env L);
          (code, lg) =
            (if cmd = ''daemon'' then
               (case runDaemon L (px_boot env) (px_before env) (px_flight env) (px_queued env) of
                  (end, _, lg) \<Rightarrow> (daemonExit end, lg))
             else if cmd = ''sync'' then runClient (px_submission env) socketPath
             else (2, [slogError ''unknown subcommand''
                         [(''command'', AStr cmd), (''valid'', AStr ''daemon, sync, health'')]]))
      in (code, emitted level (lgL @ lg)))"

text \<open>The package health for the probe: its default path, the duration of a lease, and
  \<open>RunProbe\<close>, which exits with a code (\<open>Some\<close>) or returns (\<open>None\<close>).\<close>

record probeLib =
  pb_defaultPath :: string
  pb_leaseDuration :: "lease \<Rightarrow> int"
  pb_runProbe :: "string \<Rightarrow> int option \<Rightarrow> int option"

text \<open>\<open>main\<close>. The records that the probe's options write go to the discarding handler.\<close>

definition main :: "probeLib \<Rightarrow> 'l libs \<Rightarrow> 's processEnv \<Rightarrow> string list \<Rightarrow> int \<times> logRec list" where
  "main pb L env args =
     (case (if 1 < length args \<and> args ! 1 = ''health''
            then pb_runProbe pb (pb_defaultPath pb)
                   (probeOptions (pb_leaseDuration pb) (lib_env L) (lib_yaml L) (be_fs (px_boot env)))
            else None) of
        Some code \<Rightarrow> (code, [])
      | None \<Rightarrow> dispatch L env args)"

section \<open>Lemmas\<close>

lemma clientEvents_no_error: "\<not> list_ex isErrorRec (snd (clientEvents a evs))"
  by (induction a evs rule: clientEvents.induct) (auto simp: case_prod_beta split: eventKind.split)

lemma clientEvents_accepted: "fst (clientEvents a evs) \<longleftrightarrow> a \<or> (\<exists>ev \<in> set evs. ev_Kind ev = EventQueued)"
  by (induction a evs rule: clientEvents.induct) (auto simp: case_prod_beta split: eventKind.splits)

lemma finishResult_code: "fst (finishResult ev) = (if ev_OK ev then 0 else 1)"
  by (simp add: finishResult_def)

lemma finishResult_error: "list_ex isErrorRec (snd (finishResult ev)) \<longleftrightarrow> \<not> ev_OK ev"
  by (simp add: finishResult_def)

lemma emitted_error: "isErrorRec r \<Longrightarrow> r \<in> set lg \<Longrightarrow> r \<in> set (emitted lv lg)"
  by (cases lv) (auto simp: emitted_def isErrorRec_def)

lemma runClient_code: "fst (runClient sb sock) = (if sb_err sb = None \<and> ev_OK (sb_final sb) then 0 else 1)"
  by (auto simp: runClient_def case_prod_beta finishResult_code)

section \<open>Properties\<close>

text \<open>C37 (error): the client's exit code. It is 0 exactly when the submission ended without
  an error and the final event is OK, and 1 otherwise; it logs an error record exactly when
  it exits 1, except for a cancelled wait, which is a warning that says whether the queued
  event had been seen.\<close>

theorem runClient_exit:
  fixes sb sock
  defines "cancelled \<equiv> errIsOpt (sb_err sb) ErrCanceled \<and> \<not> errIsOpt (sb_err sb) ErrUnreachable
                        \<and> \<not> errIsOpt (sb_err sb) ErrSend"
  shows "fst (runClient sb sock) \<in> {0, 1}
    \<and> (fst (runClient sb sock) = 0 \<longleftrightarrow> sb_err sb = None \<and> ev_OK (sb_final sb))
    \<and> (list_ex isErrorRec (snd (runClient sb sock)) \<longleftrightarrow> fst (runClient sb sock) = 1 \<and> \<not> cancelled)
    \<and> (cancelled \<longrightarrow> (\<exists>lg as. snd (runClient sb sock) = lg @ [slogWarn ''this trigger was interrupted while waiting'' as]
         \<and> (''acceptance'', AStr (if \<exists>ev \<in> set (sb_events sb). ev_Kind ev = EventQueued
                                  then ''observed'' else ''unknown'')) \<in> set as))"
proof (intro conjI impI)
  show "list_ex isErrorRec (snd (runClient sb sock)) \<longleftrightarrow> fst (runClient sb sock) = 1 \<and> \<not> cancelled"
    using clientEvents_no_error [of False "sb_events sb"]
    by (auto simp: runClient_def case_prod_beta cancelled_def finishResult_code finishResult_error)
  assume "cancelled"
  then show "\<exists>lg as. snd (runClient sb sock) = lg @ [slogWarn ''this trigger was interrupted while waiting'' as]
         \<and> (''acceptance'', AStr (if \<exists>ev \<in> set (sb_events sb). ev_Kind ev = EventQueued
                                  then ''observed'' else ''unknown'')) \<in> set as"
    by (intro exI [of _ "snd (clientEvents False (sb_events sb))"] exI
          [of _ "[(''acceptance'', AStr (if fst (clientEvents False (sb_events sb)) then ''observed'' else ''unknown'')),
                  (''error'', AErr (the (sb_err sb)))]"])
       (simp add: runClient_def case_prod_beta cancelled_def clientEvents_accepted)
qed (simp_all add: runClient_code)

definition sampleEvent :: "eventKind \<Rightarrow> bool \<Rightarrow> triggerEvent" where
  "sampleEvent k ok = \<lparr>ev_Kind = k, ev_OK = ok, ev_DurationMs = 5, ev_Reason = []\<rparr>"

definition sampleSubmission :: "goerr option \<Rightarrow> bool \<Rightarrow> submission" where
  "sampleSubmission err ok =
     \<lparr>sb_events = [sampleEvent EventQueued False], sb_final = sampleEvent EventOther ok, sb_err = err\<rparr>"

theorem runClient_exit_witness:
  "\<exists>lg as. snd (runClient (sampleSubmission (Some ErrCanceled) False) socketPath)
       = lg @ [slogWarn ''this trigger was interrupted while waiting'' as]
     \<and> (''acceptance'', AStr ''observed'') \<in> set as"
  using runClient_exit [of "sampleSubmission (Some ErrCanceled) False" socketPath]
  by (simp add: sampleSubmission_def sampleEvent_def)

text \<open>C38 (error): the process exit code, when the packages keep their documented laws. The
  \<open>health\<close> subcommand exits with the probe's code and writes no record; \<open>sync\<close> exits 0
  exactly when the pass was reported OK and 1 otherwise; \<open>daemon\<close> exits 0 exactly when it
  booted (it then ran until the shutdown) and 1 otherwise; anything else, no argument
  included, exits 2 with an error record that every LOG_LEVEL lets through.\<close>

theorem main_exit:
  assumes "latchLaws (lib_latch L)" and "containsRefl (lib_contains L)" and "sortPermutes (lib_sort L)"
    and "\<forall>path opts. \<exists>code. pb_runProbe pb path opts = Some code"
  shows "(subcommand args = ''health'' \<longrightarrow>
      main pb L env args =
        (the (pb_runProbe pb (pb_defaultPath pb)
           (probeOptions (pb_leaseDuration pb) (lib_env L) (lib_yaml L) (be_fs (px_boot env)))), []))
    \<and> (subcommand args = ''sync'' \<longrightarrow>
      fst (main pb L env args) =
        (if sb_err (px_submission env) = None \<and> ev_OK (sb_final (px_submission env)) then 0 else 1))
    \<and> (subcommand args = ''daemon'' \<longrightarrow>
      fst (main pb L env args) = (if \<exists>b. fst (runDaemon_boot L (px_boot env)) = Inr b then 0 else 1))
    \<and> (subcommand args \<notin> {''health'', ''sync'', ''daemon''} \<longrightarrow>
      fst (main pb L env args) = 2 \<and> list_ex isErrorRec (snd (main pb L env args)))"
proof -
  have sub: "1 < length args \<and> args ! 1 = ''health'' \<longleftrightarrow> subcommand args = ''health''"
    by (auto simp: subcommand_def)
  have other: "main pb L env args = dispatch L env args" if "subcommand args \<noteq> ''health''"
    using that unfolding main_def sub by simp
  have "daemonExit (fst (runDaemon L (px_boot env) (px_before env) (px_flight env) (px_queued env))) =
      (if \<exists>b. fst (runDaemon_boot L (px_boot env)) = Inr b then 0 else 1)"
    using runDaemon_clean [OF assms(1-3), of "px_boot env" "px_before env" "px_flight env" "px_queued env"]
    by (auto simp: daemonExit_def split: daemonEnd.splits bootErr.split)
  then have "fst (main pb L env args) = (if \<exists>b. fst (runDaemon_boot L (px_boot env)) = Inr b then 0 else 1)"
    if "subcommand args = ''daemon''"
    using other that by (simp add: dispatch_def Let_def case_prod_beta)
  moreover have "list_ex isErrorRec (snd (main pb L env args)) \<and> fst (main pb L env args) = 2"
    if "subcommand args \<notin> {''health'', ''sync'', ''daemon''}"
    using other that
    by (auto simp: dispatch_def Let_def case_prod_beta list_ex_iff
        intro!: bexI [OF _ emitted_error] isErrorRec_slog)
  moreover have "fst (main pb L env args) =
        (if sb_err (px_submission env) = None \<and> ev_OK (sb_final (px_submission env)) then 0 else 1)"
    if "subcommand args = ''sync''"
    using other that by (simp add: dispatch_def Let_def case_prod_beta runClient_code)
  moreover have "main pb L env args =
        (the (pb_runProbe pb (pb_defaultPath pb)
           (probeOptions (pb_leaseDuration pb) (lib_env L) (lib_yaml L) (be_fs (px_boot env)))), [])"
    if "subcommand args = ''health''"
  proof -
    obtain code where "pb_runProbe pb (pb_defaultPath pb)
        (probeOptions (pb_leaseDuration pb) (lib_env L) (lib_yaml L) (be_fs (px_boot env))) = Some code"
      using assms(4) by blast
    with that show ?thesis unfolding main_def sub by simp
  qed
  ultimately show ?thesis by blast
qed

definition sampleProcess :: "bool option processEnv" where
  "sampleProcess =
     \<lparr>px_boot = sampleBoot, px_before = [(triggerInterval, sampleRunEnv)], px_flight = None, px_queued = [],
      px_submission = sampleSubmission None True\<rparr>"

definition sampleProbe :: probeLib where
  "sampleProbe =
     \<lparr>pb_defaultPath = ''/tmp/.healthy'', pb_leaseDuration = sampleLease,
      pb_runProbe = (\<lambda>path opts. Some (if opts = None then 1 else 0))\<rparr>"

theorem main_exit_witness:
  "fst (main sampleProbe sampleLibs sampleProcess [''rsync-scheduler'', ''daemon'']) = 0
     \<and> fst (main sampleProbe sampleLibs sampleProcess [''rsync-scheduler'']) = 2"
proof -
  have probe: "\<forall>path opts. \<exists>code. pb_runProbe sampleProbe path opts = Some code" by (simp add: sampleProbe_def)
  have "\<exists>b. fst (runDaemon_boot sampleLibs (px_boot sampleProcess)) = Inr b"
    using sampleBoot_ok by (auto simp: sampleProcess_def)
  with main_exit [OF sampleLibs_laws probe, of "[''rsync-scheduler'', ''daemon'']" sampleProcess]
    main_exit [OF sampleLibs_laws probe, of "[''rsync-scheduler'']" sampleProcess]
  show ?thesis by (simp add: subcommand_def)
qed

end
