(* ===== verification/Service.thy ===== *)
theory Service
  imports Daemon
begin

text \<open>
  What the daemon promises over its life, and over a restart: an abstract specification of
  the service it gives (its health marker, whether it is draining, and the verdict its
  last-run record holds), a simulation of the daemon's steps by it, the invariant of the
  daemon's fields, and the order of the requests that its ticker submits.
\<close>

section \<open>The fields of a daemon\<close>

text \<open>A positive timeout, a compression word that rsync knows, and a 32-byte digest.\<close>

definition daemonOk :: "('l, 's) daemon \<Rightarrow> bool" where
  "daemonOk d \<longleftrightarrow>
     0 < dm_timeout d \<and> knownCompression (compress (dm_transport d)) \<and> length (dm_advised d) = 32"

lemma loadConfig_digest: "loadConfig lib y fs = Inr lc \<Longrightarrow> length (lc_digest lc) = 32"
  by (auto simp: loadConfig_def length_sum256 split: sum.splits option.splits)

lemma daemon_run_advised:
  "daemon_run L env d trig = Some (d', out, lg) \<Longrightarrow> length (dm_advised d) = 32 \<Longrightarrow> length (dm_advised d') = 32"
  by (auto simp: daemon_run_def case_prod_beta split: sum.splits option.splits if_splits dest: loadConfig_digest)

interpretation fields: step_invariant "daemon_step L" "daemon_trace L" daemonOk for L
proof unfold_locales
  show "daemonOk d \<Longrightarrow> daemon_step L d ev d' \<Longrightarrow> daemonOk d'" for d ev d'
    by (auto elim!: daemon_step.cases simp: daemonOk_def daemon_run_publishes(5,6) beginShutdown_def
        dest: daemon_run_advised)
qed (rule daemon_trace_cases)

lemma boot_daemonOk:
  assumes "runDaemon_boot L env = (Inr b, lg)"
  shows "daemonOk (bo_daemon b)"
  using assms
  by (rule runDaemon_boot_Inr)
     (simp add: daemonOk_def loadTransport_known loadSyncTimeout_positive loadConfig_digest)

section \<open>The abstract service\<close>

record service =
  sv_up :: bool
  sv_draining :: bool
  sv_record :: "bool option"

text \<open>A served request: whether it is scheduled, its verdict, and whether it warned that the
  record could neither be written nor removed.\<close>

datatype serviceEvent = Served bool "bool option" bool | Drain

text \<open>Serving a request with a verdict publishes it, unless the service drains; a scheduled
  one also replaces the record, which is removed where it cannot be written, and stays as it
  was only with a warning.\<close>

inductive service_step :: "service \<Rightarrow> serviceEvent \<Rightarrow> service \<Rightarrow> bool" where
  quiet: "service_step a (Served sched None warned) a"
| triggered: "service_step a (Served False (Some v) warned) (a\<lparr>sv_up := (v \<and> \<not> sv_draining a)\<rparr>)"
| scheduled: "r = Some v \<or> r = None \<or> warned \<and> r = sv_record a \<Longrightarrow>
    service_step a (Served True (Some v) warned) (a\<lparr>sv_up := (v \<and> \<not> sv_draining a), sv_record := r\<rparr>)"
| drain: "service_step a Drain (a\<lparr>sv_up := False, sv_draining := True\<rparr>)"

inductive_cases service_servedE: "service_step a (Served sched v warned) a'"
inductive_cases service_drainE: "service_step a Drain a'"

inductive service_trace :: "service \<Rightarrow> serviceEvent list \<Rightarrow> service \<Rightarrow> bool" where
  service_nil: "service_trace a [] a"
| service_snoc: "service_trace a es a1 \<Longrightarrow> service_step a1 e a2 \<Longrightarrow> service_trace a (es @ [e]) a2"

text \<open>The verdicts published along a trace, and those of scheduled requests, each with its
  warning.\<close>

definition published :: "serviceEvent list \<Rightarrow> bool list" where
  "published es = concat (map (\<lambda>e. case e of Served _ (Some v) _ \<Rightarrow> [v] | _ \<Rightarrow> []) es)"

definition scheduledVerdicts :: "serviceEvent list \<Rightarrow> (bool \<times> bool) list" where
  "scheduledVerdicts es =
     concat (map (\<lambda>e. case e of Served sched (Some v) warned \<Rightarrow> if sched then [(v, warned)] else [] | _ \<Rightarrow> []) es)"

lemma service_trace_record:
  "service_trace a es a' \<Longrightarrow>
   (if scheduledVerdicts es = [] then sv_record a' = sv_record a
    else snd (last (scheduledVerdicts es)) \<or> sv_record a' = Some (fst (last (scheduledVerdicts es)))
         \<or> sv_record a' = None)"
proof (induction rule: service_trace.induct)
  case (service_nil a)
  then show ?case by (simp add: scheduledVerdicts_def)
next
  case (service_snoc a es a1 e a2)
  from service_snoc.hyps(2) service_snoc.IH show ?case
    by cases (auto simp: scheduledVerdicts_def split: if_splits)
qed

lemma service_trace_up:
  "service_trace a es a' \<Longrightarrow> Drain \<notin> set es \<Longrightarrow>
   sv_draining a' = sv_draining a
   \<and> sv_up a' = (if published es = [] then sv_up a else last (published es) \<and> \<not> sv_draining a)"
proof (induction rule: service_trace.induct)
  case (service_nil a)
  then show ?case by (simp add: published_def)
next
  case (service_snoc a es a1 e a2)
  then have IH: "sv_draining a1 = sv_draining a"
    "sv_up a1 = (if published es = [] then sv_up a else last (published es) \<and> \<not> sv_draining a)" by auto
  from service_snoc.hyps(2) service_snoc.prems IH show ?case
    by cases (auto simp: published_def)
qed

section \<open>Interface: a simulation\<close>

text \<open>Steps under an invariant, each matched by a step of the specification, give a trace of
  the specification.\<close>

locale simulation = step_invariant stepTo traceTo inv
  for stepTo :: "'s \<Rightarrow> 'e \<Rightarrow> 's \<Rightarrow> bool" and traceTo :: "'s \<Rightarrow> 'e list \<Rightarrow> 's \<Rightarrow> bool" and inv :: "'s \<Rightarrow> bool" +
  fixes specStep :: "'a \<Rightarrow> 'b \<Rightarrow> 'a \<Rightarrow> bool" and specTrace :: "'a \<Rightarrow> 'b list \<Rightarrow> 'a \<Rightarrow> bool"
    and absState :: "'s \<Rightarrow> 'a" and absEvent :: "'e \<Rightarrow> 'b" and allowed :: "'e \<Rightarrow> bool"
  assumes matches: "inv s \<Longrightarrow> allowed e \<Longrightarrow> stepTo s e s' \<Longrightarrow> specStep (absState s) (absEvent e) (absState s')"
    and spec_nil: "specTrace a [] a"
    and spec_snoc: "specTrace a bs a1 \<Longrightarrow> specStep a1 b a2 \<Longrightarrow> specTrace a (bs @ [b]) a2"
begin

lemma trace_matches:
  "traceTo s es s' \<Longrightarrow> inv s \<Longrightarrow> \<forall>e \<in> set es. allowed e \<Longrightarrow>
   specTrace (absState s) (map absEvent es) (absState s')"
proof (induction es arbitrary: s' rule: rev_induct)
  case Nil
  then show ?case using trace_cases [of s "[]" s'] spec_nil by auto
next
  case (snoc e es)
  then obtain s1 where s1: "traceTo s es s1" "stepTo s1 e s'" using trace_cases [of s "es @ [e]" s'] by auto
  have "specTrace (absState s) (map absEvent es) (absState s1)" using snoc s1(1) by simp
  moreover have "specStep (absState s1) (absEvent e) (absState s')"
    using matches inv_trace [OF s1(1)] s1(2) snoc.prems by simp
  ultimately show ?case using spec_snoc by simp
qed

end

section \<open>The daemon gives the service\<close>

definition serviceOf :: "'l libs \<Rightarrow> ('s \<Rightarrow> bool option) \<Rightarrow> ('l, 's) daemon \<Rightarrow> service" where
  "serviceOf L says d =
     \<lparr>sv_up = l_up (lib_latch L) (dm_health d), sv_draining = l_draining (lib_latch L) (dm_health d),
      sv_record = says (dm_stamp d)\<rparr>"

lemma serviceOf_sel:
  "sv_up (serviceOf L says d) = l_up (lib_latch L) (dm_health d)"
  "sv_draining (serviceOf L says d) = l_draining (lib_latch L) (dm_health d)"
  "sv_record (serviceOf L says d) = says (dm_stamp d)"
  by (simp_all add: serviceOf_def)

text \<open>A step of the daemon with the records it wrote.\<close>

type_synonym 's logged = "'s event \<times> logRec list"

inductive logged_step ::
  "'l libs \<Rightarrow> ('l, 's) daemon \<Rightarrow> 's logged \<Rightarrow> ('l, 's) daemon \<Rightarrow> bool" for L where
  logged_serve: "daemon_run L env d trig = Some (d', out, lg) \<Longrightarrow> logged_step L d (ServeRequest trig env, lg) d'"
| logged_drain: "logged_step L d (BeginShutdown, []) (beginShutdown L d)"

inductive logged_trace ::
  "'l libs \<Rightarrow> ('l, 's) daemon \<Rightarrow> 's logged list \<Rightarrow> ('l, 's) daemon \<Rightarrow> bool" for L where
  logged_nil: "logged_trace L d [] d"
| logged_snoc: "logged_trace L d es d1 \<Longrightarrow> logged_step L d1 e d2 \<Longrightarrow> logged_trace L d (es @ [e]) d2"

lemma logged_trace_cases:
  "logged_trace L d es d' \<Longrightarrow>
   es = [] \<and> d' = d \<or> (\<exists>es0 e d1. es = es0 @ [e] \<and> logged_trace L d es0 d1 \<and> logged_step L d1 e d')"
  by (cases rule: logged_trace.cases) auto

lemma logged_Cons:
  assumes "logged_trace L d1 es d2" and "logged_step L d e d1"
  shows "logged_trace L d (e # es) d2"
  using assms
proof (induction rule: logged_trace.induct)
  case (logged_nil d1)
  with logged_trace.logged_snoc [OF logged_trace.logged_nil logged_nil(1)] show ?case by simp
next
  case (logged_snoc d1 es d2 e' d3)
  then show ?case using logged_trace.logged_snoc [of L d "e # es" d2 e' d3] by simp
qed

lemma logged_step_step: "logged_step L d e d' \<Longrightarrow> daemon_step L d (fst e) d'"
  by (auto elim!: logged_step.cases intro: daemon_step.intros)

lemma logged_trace_trace: "logged_trace L d es d' \<Longrightarrow> daemon_trace L d (map fst es) d'"
  by (induction rule: logged_trace.induct) (auto intro: daemon_trace.intros logged_step_step)

fun serviceEventOf :: "'l libs \<Rightarrow> int \<Rightarrow> transport \<Rightarrow> 's logged \<Rightarrow> serviceEvent" where
  "serviceEventOf L timeout tr (ServeRequest trig env, lg) =
     Served (isScheduled trig) (verdictOf L timeout tr env) (staleWarned lg)"
| "serviceEventOf L timeout tr (BeginShutdown, lg) = Drain"

fun eventLaws :: "('s \<Rightarrow> bool option) \<Rightarrow> 's logged \<Rightarrow> bool" where
  "eventLaws says (ServeRequest trig env, lg) = recordLaws says env"
| "eventLaws says (BeginShutdown, lg) = True"

lemma logged_step_matches:
  assumes "latchLaws (lib_latch L)" and "dm_transport d = tr" and "dm_timeout d = t"
    and "eventLaws says e" and "logged_step L d e d'"
  shows "service_step (serviceOf L says d) (serviceEventOf L t tr e) (serviceOf L says d')"
  using assms(5)
proof cases
  case (logged_serve env trig out lg)
  note run = logged_serve(2)
  note up = daemon_run_up [OF assms(1) run] and stamp = daemon_run_publishes(2) [OF run]
  show ?thesis
  proof (cases "runVerdict L env d")
    case None
    with up stamp logged_serve(1) assms(2,3) show ?thesis
      by (simp add: serviceOf_def runVerdict_def service_step.quiet)
  next
    case (Some v)
    show ?thesis
    proof (cases "isScheduled trig")
      case True
      have laws: "recordLaws says env" using assms(4) logged_serve(1) by simp
      have "says (dm_stamp d') = Some v \<or> says (dm_stamp d') = None
          \<or> staleWarned lg \<and> says (dm_stamp d') = sv_record (serviceOf L says d)"
        using recordScheduled_says [OF laws True, of v "dm_stamp d"] Some stamp
          staleWarned_mono [OF daemon_run_record_logs [OF run Some]]
        by (auto simp: serviceOf_def)
      from service_step.scheduled [OF this] True up logged_serve(1) assms(2,3) Some
      show ?thesis by (simp add: serviceOf_def runVerdict_def)
    next
      case False
      with service_step.triggered [of "serviceOf L says d" v] up stamp logged_serve(1) assms(2,3) Some
      show ?thesis by (simp add: serviceOf_def runVerdict_def recordScheduled_external)
    qed
  qed
next
  case logged_drain
  with service_step.drain [of "serviceOf L says d"] assms(1) show ?thesis
    by (simp add: serviceOf_def beginShutdown_def latchLaws_def)
qed

interpretation impl: simulation "logged_step L" "logged_trace L"
  "\<lambda>d. latchLaws (lib_latch L) \<and> dm_transport d = tr \<and> dm_timeout d = t"
  service_step service_trace "serviceOf L says" "serviceEventOf L t tr" "eventLaws says" for L tr t says
proof unfold_locales
  show "latchLaws (lib_latch L) \<and> dm_transport d = tr \<and> dm_timeout d = t \<Longrightarrow> logged_step L d e d' \<Longrightarrow>
      latchLaws (lib_latch L) \<and> dm_transport d' = tr \<and> dm_timeout d' = t" for d e d'
    using settings.inv_step logged_step_step by blast
qed (auto intro: logged_step_matches service_trace.intros dest: logged_trace_cases)

section \<open>The order of the requests\<close>

lemma ticks_labels:
  "fst (ticks trig subs) = replicate (length (filter (\<lambda>s. s (newRequest trig) = None) subs)) trig"
  by (induction subs) (auto simp: tick_def case_prod_beta split: option.split)

lemma ticks_skipped:
  "map lr_msg (snd (ticks trig subs)) =
     replicate (length (filter (\<lambda>s. s (newRequest trig) \<noteq> None) subs)) ''scheduled sync skipped''"
  by (induction subs) (auto simp: tick_def case_prod_beta split: option.split)

lemma serveAll_stamp:
  assumes "serveAll L d reqs = Some (d', outs, lg)" and "\<forall>t \<in> set (map fst reqs). \<not> isScheduled t"
  shows "dm_stamp d' = dm_stamp d"
  using assms
proof (induction reqs arbitrary: d outs lg)
  case (Cons q reqs)
  obtain trig env where q: "q = (trig, env)" by fastforce
  from Cons.prems(1) q obtain d1 out lg1 outs1 lg2 where
    d1: "daemon_run L env d trig = Some (d1, out, lg1)" and "serveAll L d1 reqs = Some (d', outs1, lg2)"
    by (auto split: option.splits)
  with Cons.IH [of d1 outs1 lg2] Cons.prems(2) have "dm_stamp d' = dm_stamp d1" by simp
  moreover have "dm_stamp d1 = dm_stamp d"
    using Cons.prems(2) q by (auto simp: daemon_run_publishes(2) [OF d1] recordScheduled_external split: option.split)
  ultimately show ?case by simp
qed simp

section \<open>Lemmas on served requests\<close>

definition serveEvents :: "(string \<times> 's runEnv) list \<Rightarrow> 's event list" where
  "serveEvents reqs = map (\<lambda>(trig, env). ServeRequest trig env) reqs"

text \<open>The verdicts of a list of requests, and those of the scheduled ones, under the settings of
  a boot.\<close>

definition verdictsOf :: "'l libs \<Rightarrow> int \<Rightarrow> transport \<Rightarrow> (string \<times> 's runEnv) list \<Rightarrow> bool list" where
  "verdictsOf L t tr reqs = concat (map (\<lambda>(trig, env). case verdictOf L t tr env of None \<Rightarrow> [] | Some v \<Rightarrow> [v]) reqs)"

definition recordsOf :: "'l libs \<Rightarrow> int \<Rightarrow> transport \<Rightarrow> (string \<times> 's runEnv) list \<Rightarrow> bool list" where
  "recordsOf L t tr reqs = verdictsOf L t tr (filter (\<lambda>(trig, env). isScheduled trig) reqs)"

lemma published_serveEvents:
  assumes "length lgs = length reqs"
  shows "published (map (serviceEventOf L t tr) (zip (serveEvents reqs) lgs)) = verdictsOf L t tr reqs"
    and "map fst (scheduledVerdicts (map (serviceEventOf L t tr) (zip (serveEvents reqs) lgs))) = recordsOf L t tr reqs"
    and "Drain \<notin> set (map (serviceEventOf L t tr) (zip (serveEvents reqs) lgs))"
    and "(v, True) \<in> set (scheduledVerdicts (map (serviceEventOf L t tr) (zip (serveEvents reqs) lgs))) \<Longrightarrow>
      staleWarned (concat lgs)"
  using assms
  by (induction lgs reqs rule: list_induct2)
     (auto simp: published_def scheduledVerdicts_def verdictsOf_def recordsOf_def serveEvents_def staleWarned_def
       split: option.splits if_splits)

lemma serveAll_logged:
  "serveAll L d reqs = Some (d', outs, lg) \<Longrightarrow>
   \<exists>lgs. length lgs = length reqs \<and> concat lgs = lg \<and> logged_trace L d (zip (serveEvents reqs) lgs) d'"
proof (induction reqs arbitrary: d outs lg)
  case Nil
  then show ?case by (auto simp: serveEvents_def intro: logged_nil)
next
  case (Cons q reqs)
  obtain trig env where q: "q = (trig, env)" by fastforce
  from Cons.prems q obtain d1 out lg1 outs1 lg2 where
    d1: "daemon_run L env d trig = Some (d1, out, lg1)" and rest: "serveAll L d1 reqs = Some (d', outs1, lg2)"
    and lg: "lg = lg1 @ lg2"
    by (auto split: option.splits)
  from Cons.IH [OF rest] obtain lgs where
    "length lgs = length reqs" "concat lgs = lg2" "logged_trace L d1 (zip (serveEvents reqs) lgs) d'" by blast
  with logged_Cons [OF _ logged_serve [OF d1]] q lg show ?case
    by (intro exI [of _ "lg1 # lgs"]) (simp add: serveEvents_def)
qed

section \<open>Properties\<close>

text \<open>C24 (type): the fields of the daemon. In every state reached from a boot, whatever
  requests were served and however the shutdown fell among them, the job timeout is
  positive, the compression word is one that rsync knows, and the digest of the advised
  config is 32 bytes long.\<close>

theorem daemon_fields_ok:
  assumes "runDaemon_boot L env = (Inr b, lg)" and "daemon_trace L (bo_daemon b) evs d"
  shows "0 < dm_timeout d \<and> knownCompression (compress (dm_transport d)) \<and> length (dm_advised d) = 32"
  using fields.inv_trace [OF assms(2) boot_daemonOk [OF assms(1)]] by (simp add: daemonOk_def)

theorem daemon_fields_ok_witness:
  "\<exists>b lg d. runDaemon_boot sampleLibs sampleBoot = (Inr b, lg)
     \<and> daemon_trace sampleLibs (bo_daemon b) [BeginShutdown] d \<and> length (dm_advised d) = 32"
proof -
  obtain b lg where boot: "runDaemon_boot sampleLibs sampleBoot = (Inr b, lg)" using sampleBoot_ok by blast
  have tr: "daemon_trace sampleLibs (bo_daemon b) [BeginShutdown] (beginShutdown sampleLibs (bo_daemon b))"
    by (rule trace_Cons [OF daemon_trace.trace_nil daemon_step.shutdown])
  from daemon_fields_ok [OF boot tr] boot tr show ?thesis by blast
qed

text \<open>C21 (refinement): the daemon implements the abstract service. With a latch and a record
  that keep their documented laws, every list of requests it serves is, with the records of
  each request, a trace of the service. Afterwards the marker shows the last verdict of a
  request, never up while draining. The record holds the last verdict of a scheduled request
  or is gone, unless a log record warns that it could neither be written nor removed. Both
  are as they were when there was no such verdict. Every request got its outcome, OK unless
  its verdict is a failure.\<close>

theorem daemon_implements_service:
  fixes d :: "('l, 's) daemon" and reqs
  assumes "latchLaws (lib_latch L)" and "serveAll L d reqs = Some (d', outs, lg)"
    and "\<forall>(trig, env) \<in> set reqs. recordLaws says env"
  defines "ws \<equiv> verdictsOf L (dm_timeout d) (dm_transport d) reqs"
    and "rs \<equiv> recordsOf L (dm_timeout d) (dm_transport d) reqs"
  shows "(\<exists>lgs. length lgs = length reqs \<and> concat lgs = lg
        \<and> service_trace (serviceOf L says d)
            (map (serviceEventOf L (dm_timeout d) (dm_transport d)) (zip (serveEvents reqs) lgs))
            (serviceOf L says d'))
    \<and> (l_up (lib_latch L) (dm_health d') \<longleftrightarrow>
         (if ws = [] then l_up (lib_latch L) (dm_health d)
          else last ws \<and> \<not> l_draining (lib_latch L) (dm_health d)))
    \<and> (if rs = [] then says (dm_stamp d') = says (dm_stamp d)
       else says (dm_stamp d') = Some (last rs) \<or> says (dm_stamp d') = None \<or> staleWarned lg)
    \<and> map out_OK outs =
        map (\<lambda>(trig, env). verdictOf L (dm_timeout d) (dm_transport d) env \<noteq> Some False) reqs"
proof -
  obtain lgs where lgs: "length lgs = length reqs" "concat lgs = lg"
      "logged_trace L d (zip (serveEvents reqs) lgs) d'"
    using serveAll_logged [OF assms(2)] by blast
  define es where "es = map (serviceEventOf L (dm_timeout d) (dm_transport d)) (zip (serveEvents reqs) lgs)"
  have "\<forall>e \<in> set (zip (serveEvents reqs) lgs). eventLaws says e"
    using assms(3) by (fastforce simp: serveEvents_def dest!: set_zip_leftD)
  then have tr: "service_trace (serviceOf L says d) es (serviceOf L says d')"
    unfolding es_def using impl.trace_matches [OF lgs(3)] assms(1) by blast
  note ev = published_serveEvents [OF lgs(1), where L = L and t = "dm_timeout d" and tr = "dm_transport d",
    folded es_def ws_def rs_def]
  have up: "l_up (lib_latch L) (dm_health d') \<longleftrightarrow>
         (if ws = [] then l_up (lib_latch L) (dm_health d)
          else last ws \<and> \<not> l_draining (lib_latch L) (dm_health d))"
    using service_trace_up [OF tr ev(3)] unfolding ev(1) serviceOf_sel by blast
  have rec: "if rs = [] then says (dm_stamp d') = says (dm_stamp d)
       else says (dm_stamp d') = Some (last rs) \<or> says (dm_stamp d') = None \<or> staleWarned lg"
  proof (cases "scheduledVerdicts es" rule: rev_cases)
    case Nil
    with service_trace_record [OF tr] ev(2) show ?thesis by (simp add: serviceOf_sel)
  next
    case (snoc ys y)
    with service_trace_record [OF tr] have "snd y \<or> says (dm_stamp d') = Some (fst y) \<or> says (dm_stamp d') = None"
      by (simp add: serviceOf_sel)
    moreover have "rs = map fst ys @ [fst y]" using ev(2) snoc by simp
    moreover have "staleWarned lg" if "snd y"
      using ev(4) [of "fst y"] snoc that lgs(2) by (cases y) simp
    ultimately show ?thesis by auto
  qed
  have "map out_OK outs = map (\<lambda>(trig, env). verdictOf L (dm_timeout d) (dm_transport d) env \<noteq> Some False) reqs"
    using serveAll_outcomes [OF assms(2)] by (simp add: verdictsOK_def)
  with up rec lgs tr show ?thesis unfolding es_def by blast
qed

lemma sampleRunEnv_laws: "recordLaws id sampleRunEnv"
  by (auto simp: recordLaws_def sampleRunEnv_def)

lemma sampleRun_verdictOf: "verdictOf sampleLibs t tr sampleRunEnv = Some True"
  using sampleRun_verdict [of "sampleDaemon\<lparr>dm_timeout := t, dm_transport := tr\<rparr>"] by (simp add: runVerdict_def)

definition sampleReqs :: "(string \<times> bool option runEnv) list" where
  "sampleReqs = [(triggerStartup, sampleRunEnv), (''external'', sampleRunEnv)]"

lemma sampleReqs_facts:
  "verdictsOf sampleLibs t tr sampleReqs = [True, True]" "recordsOf sampleLibs t tr sampleReqs = [True]"
  "\<forall>(trig, env) \<in> set sampleReqs. recordLaws id env"
  using sampleRunEnv_laws
  by (simp_all add: verdictsOf_def recordsOf_def sampleReqs_def sampleRun_verdictOf isScheduled_def
      triggerStartup_def triggerInterval_def)

theorem daemon_implements_service_witness:
  "\<exists>d' outs lg. serveAll sampleLibs sampleDaemon sampleReqs = Some (d', outs, lg)
     \<and> l_up (lib_latch sampleLibs) (dm_health d')
     \<and> (dm_stamp d' = Some True \<or> dm_stamp d' = None \<or> staleWarned lg) \<and> map out_OK outs = [True, True]"
proof -
  obtain d' outs lg where s: "serveAll sampleLibs sampleDaemon sampleReqs = Some (d', outs, lg)"
    using serveAll_total [OF sampleLibs_laws(2,3)] by blast
  have "\<not> l_draining (lib_latch sampleLibs) (dm_health sampleDaemon)"
    by (simp add: sampleLibs_def pairLatch_def sampleDaemon_def)
  with daemon_implements_service [OF sampleLibs_laws(1) s sampleReqs_facts(3)] s show ?thesis
    by (simp add: sampleReqs_facts) (simp add: sampleReqs_def sampleRun_verdictOf)
qed

text \<open>C23 (safety): the scheduler's own requests. In built-in mode the ticker submits a startup
  request exactly when one is due, because the record grants no time or cannot be rewritten,
  and before every interval request; its loop starts without delay then and after the time
  left otherwise; each refused tick is skipped with one warning and does not stop later ones.
  In external mode there is no ticker, and as long as scheduled requests come from the ticker
  alone, no list of requests served changes the last-run record.\<close>

theorem ticker_submissions:
  fixes env :: "'s bootEnv" and interval
  assumes "runDaemon_boot L env = (Inr b, lg0)" and "loadInterval (lib_env L) = (interval, builtin)"
    and "\<forall>s i. 0 \<le> be_remaining env s i"
    and "serveAll L (bo_daemon b) reqs = Some (d, outs, lg)"
    and "\<forall>t \<in> set (map fst reqs). isScheduled t \<longrightarrow> t \<in> set (fst (tickerRun (bo_ticker b) atStartup atLoop))"
  defines "due \<equiv> be_remaining env (be_stamp env) interval = 0 \<or> openRecordForWrite (be_openWrite env) stampPath \<noteq> None"
    and "accepted \<equiv> length (filter (\<lambda>s. s (newRequest triggerInterval) = None) atLoop)"
    and "refused \<equiv> length (filter (\<lambda>s. s (newRequest triggerInterval) \<noteq> None) atLoop)"
  shows "if builtin
    then fst (tickerRun (bo_ticker b) atStartup atLoop) =
           (if due \<and> atStartup (newRequest triggerStartup) = None then [triggerStartup] else [])
           @ replicate accepted triggerInterval
      \<and> map lr_msg (snd (tickerRun (bo_ticker b) atStartup atLoop)) =
           replicate ((if due \<and> atStartup (newRequest triggerStartup) \<noteq> None then 1 else 0) + refused)
             ''scheduled sync skipped''
      \<and> bo_ticker b = Some \<lparr>tp_startup = due, tp_interval = interval,
           tp_firstDelay = (if due then 0 else be_remaining env (be_stamp env) interval)\<rparr>
    else bo_ticker b = None \<and> fst (tickerRun (bo_ticker b) atStartup atLoop) = [] \<and> dm_stamp d = be_stamp env"
proof -
  obtain lc hk where b: "b = bootState L env lc hk interval builtin"
    by (rule runDaemon_boot_state [OF assms(1,2)])
  show ?thesis
  proof (cases builtin)
    case True
    have "fst (remainingAtBoot env interval True) = (if due then 0 else be_remaining env (be_stamp env) interval)"
      using assms(3) by (auto simp: remainingAtBoot_def due_def Let_def less_le split: option.split)
    moreover have "(if due then 0 else be_remaining env (be_stamp env) interval) = 0 \<longleftrightarrow> due"
      by (auto simp: due_def)
    ultimately have plan: "bo_ticker b = Some \<lparr>tp_startup = due, tp_interval = interval,
           tp_firstDelay = (if due then 0 else be_remaining env (be_stamp env) interval)\<rparr>"
      using True by (simp add: b bootState_def startTicker_def)
    have "fst (tickerRun (bo_ticker b) atStartup atLoop) =
           (if due \<and> atStartup (newRequest triggerStartup) = None then [triggerStartup] else [])
           @ replicate accepted triggerInterval"
      unfolding plan by (simp add: tickerRun_def case_prod_beta ticks_labels accepted_def del: ticks.simps)
    moreover have "map lr_msg (snd (tickerRun (bo_ticker b) atStartup atLoop)) =
           replicate ((if due \<and> atStartup (newRequest triggerStartup) \<noteq> None then 1 else 0) + refused)
             ''scheduled sync skipped''"
      unfolding plan
      by (auto simp: tickerRun_def case_prod_beta ticks_skipped refused_def replicate_add tick_def split: option.split)
    ultimately show ?thesis using plan True by simp
  next
    case False
    then have plan: "bo_ticker b = None" by (simp add: b bootState_def startTicker_def)
    then have "\<forall>t \<in> set (map fst reqs). \<not> isScheduled t" using assms(5) by (simp add: tickerRun_def)
    with serveAll_stamp [OF assms(4)] plan False show ?thesis by (simp add: tickerRun_def b bootState_def)
  qed
qed

theorem ticker_submissions_witness:
  "\<exists>b lg0. runDaemon_boot sampleLibs (sampleBoot\<lparr>be_stamp := None\<rparr>) = (Inr b, lg0)
     \<and> fst (tickerRun (bo_ticker b) (\<lambda>r. None) [\<lambda>r. Some ErrSend, \<lambda>r. None]) = [triggerStartup, triggerInterval]"
proof -
  let ?env = "sampleBoot\<lparr>be_stamp := None\<rparr>"
  have "be_fs ?env = sampleFs" "be_listen ?env = None" by (simp_all add: sampleBoot_def)
  from sampleBoot_any [OF this] obtain b lg0 where boot: "runDaemon_boot sampleLibs ?env = (Inr b, lg0)" by blast
  have iv: "loadInterval (lib_env sampleLibs) = (defaultInterval, True)"
    by (simp add: loadInterval_def sampleLibs_def sampleEnv_def)
  have rem: "\<forall>s i. 0 \<le> be_remaining ?env s i" "be_remaining ?env (be_stamp ?env) i = 0" for i
    by (simp_all add: sampleBoot_def)
  have none: "serveAll sampleLibs (bo_daemon b) [] = Some (bo_daemon b, [], [])"
    "\<forall>t \<in> set (map fst []). isScheduled t \<longrightarrow>
       t \<in> set (fst (tickerRun (bo_ticker b) (\<lambda>r. None) [\<lambda>r. Some ErrSend, \<lambda>r. None]))" by simp_all
  note conjunct1 [OF ticker_submissions [OF boot iv rem(1) none, unfolded if_True]]
  then have "fst (tickerRun (bo_ticker b) (\<lambda>r. None) [\<lambda>r. Some ErrSend, \<lambda>r. None]) = [triggerStartup, triggerInterval]"
    using rem(2) by simp
  with boot show ?thesis by blast
qed

text \<open>C22 (safety): a failed scheduled pass is retried after a restart. Let the last scheduled
  verdict of a daemon's life be a failure, in a run that may contain any requests and the
  shutdown, and let the next daemon boot in built-in mode on the record that life left. With
  a record that keeps its documented laws and a scheduler that grants time only on a record
  of success, the next daemon starts unhealthy and its ticker begins with a startup request,
  unless the request that failed logged the warning that the record could neither be written
  nor removed and may be trusted.\<close>

theorem failed_pass_retried_at_boot:
  assumes "latchLaws (lib_latch L)" and "logged_trace L d es d'" and "\<forall>e \<in> set es. eventLaws says e"
    and "scheduledVerdicts (map (serviceEventOf L (dm_timeout d) (dm_transport d)) es) = vs @ [(False, warned)]"
    and "latchLaws (lib_latch L')" and "be_stamp env = dm_stamp d'"
    and "\<forall>s i. 0 \<le> be_remaining env s i \<and> (0 < be_remaining env s i \<longrightarrow> says s = Some True)"
    and "runDaemon_boot L' env = (Inr b, lg)" and "loadInterval (lib_env L') = (interval, True)"
  shows "warned
    \<or> \<not> l_up (lib_latch L') (dm_health (bo_daemon b))
      \<and> (\<exists>tp. bo_ticker b = Some tp \<and> tp_startup tp \<and> tp_firstDelay tp = 0)
      \<and> (\<exists>later. fst (tickerRun (bo_ticker b) (\<lambda>r. None) atLoop) = triggerStartup # later)"
proof (cases warned)
  case False
  have "service_trace (serviceOf L says d)
      (map (serviceEventOf L (dm_timeout d) (dm_transport d)) es) (serviceOf L says d')"
    using impl.trace_matches [OF assms(2) _ assms(3)] assms(1) by blast
  from service_trace_record [OF this] assms(4) False have "says (dm_stamp d') \<noteq> Some True"
    by (auto simp: serviceOf_sel)
  then have "be_remaining env (be_stamp env) interval = 0" using assms(6,7) by (metis order_le_less)
  then have rem: "fst (remainingAtBoot env interval True) = 0" by (simp add: remainingAtBoot_def)
  obtain lc hk where "b = bootState L' env lc hk interval True"
    by (rule runDaemon_boot_state [OF assms(8,9)])
  with rem assms(5) show ?thesis
    by (simp add: bootState_def startTicker_def latchLaws_def tickerRun_def tick_def case_prod_beta)
qed simp

definition brokenRunEnv :: "bool option runEnv" where
  "brokenRunEnv = sampleRunEnv\<lparr>re_fs := (\<lambda>p. Inl ErrNotExist)\<rparr>"

lemma brokenRunEnv_load:
  "loadConfig (lib_env sampleLibs) (lib_yaml sampleLibs) (re_fs brokenRunEnv) = Inl (LoadRead ErrNotExist)"
  by (simp add: loadConfig_def brokenRunEnv_def readCappedConfig_def openRegular_def)

lemma brokenRunEnv_quiet:
  assumes "daemon_run sampleLibs brokenRunEnv sampleDaemon triggerInterval = Some (d', out, lg)"
  shows "\<not> staleWarned lg"
proof -
  have "recordScheduled brokenRunEnv triggerInterval False s = (Some False, [])" for s
    by (simp add: recordScheduled_def brokenRunEnv_def sampleRunEnv_def)
  with assms show ?thesis by (auto simp: daemon_run_def brokenRunEnv_load staleWarned_def)
qed

theorem failed_pass_retried_at_boot_witness:
  "\<exists>d' out lg0 b lg. daemon_run sampleLibs brokenRunEnv sampleDaemon triggerInterval = Some (d', out, lg0)
     \<and> runDaemon_boot sampleLibs (sampleBoot\<lparr>be_stamp := dm_stamp d'\<rparr>) = (Inr b, lg)
     \<and> \<not> l_up (lib_latch sampleLibs) (dm_health (bo_daemon b))"
proof -
  obtain d' out lg0 where run: "daemon_run sampleLibs brokenRunEnv sampleDaemon triggerInterval = Some (d', out, lg0)"
    using daemon_run_total [OF sampleLibs_laws(2,3)] by blast
  let ?boot = "sampleBoot\<lparr>be_stamp := dm_stamp d'\<rparr>"
  let ?es = "[(ServeRequest triggerInterval brokenRunEnv, lg0)]"
  have tr: "logged_trace sampleLibs sampleDaemon ?es d'"
    by (rule logged_Cons [OF logged_trace.logged_nil logged_step.logged_serve [OF run]])
  have laws: "\<forall>e \<in> set ?es. eventLaws id e"
    using sampleRunEnv_laws by (simp add: brokenRunEnv_def recordLaws_def)
  have v: "scheduledVerdicts (map (serviceEventOf sampleLibs (dm_timeout sampleDaemon) (dm_transport sampleDaemon)) ?es)
      = [] @ [(False, False)]"
    using brokenRunEnv_quiet [OF run]
    by (simp add: scheduledVerdicts_def verdictOf_def brokenRunEnv_load isScheduled_def)
  have rem: "\<forall>s i. 0 \<le> be_remaining ?boot s i \<and> (0 < be_remaining ?boot s i \<longrightarrow> id s = Some True)"
    by (simp add: sampleBoot_def)
  have iv: "loadInterval (lib_env sampleLibs) = (defaultInterval, True)"
    by (simp add: loadInterval_def sampleLibs_def sampleEnv_def)
  have "be_fs ?boot = sampleFs" "be_listen ?boot = None" by (simp_all add: sampleBoot_def)
  from sampleBoot_any [OF this] obtain b lg where boot: "runDaemon_boot sampleLibs ?boot = (Inr b, lg)" by blast
  have "be_stamp ?boot = dm_stamp d'" by simp
  from failed_pass_retried_at_boot [OF sampleLibs_laws(1) tr laws v sampleLibs_laws(1) this rem boot iv] run boot
  show ?thesis by blast
qed

end
