(* ===== verification/IPText.thy ===== *)
theory IPText
  imports NetIP
begin

text \<open>
  The canonical text of an address: parsing what \<open>net.IP.String\<close> prints gives the address
  back, so two host spellings denote the same address exactly when their texts are equal.
\<close>

section \<open>Well-formed addresses\<close>

definition isBytes :: "nat list \<Rightarrow> bool" where
  "isBytes bs \<longleftrightarrow> (\<forall>b \<in> set bs. b < 0x100)"

definition isAddr :: "nat list \<Rightarrow> bool" where
  "isAddr ip \<longleftrightarrow> length ip = 16 \<and> isBytes ip"

lemma isBytes_simps [simp]:
  "isBytes []" "isBytes (b # bs) \<longleftrightarrow> b < 0x100 \<and> isBytes bs"
  "isBytes (xs @ ys) \<longleftrightarrow> isBytes xs \<and> isBytes ys" "isBytes (replicate n 0)"
  by (auto simp: isBytes_def)

lemma isBytes_take_drop: "isBytes xs \<Longrightarrow> isBytes (take k xs) \<and> isBytes (drop k xs)"
  by (auto simp: isBytes_def dest: in_set_takeD in_set_dropD)

lemma hexDigitVal_bound: "isHex c \<Longrightarrow> hexDigitVal c < 16"
  by (auto simp: isHex_def hexDigitVal_def Let_def)

lemma hexVal_snoc: "hexVal (s @ [c]) = 16 * hexVal s + hexDigitVal c"
  by (simp add: hexVal_def)

lemma hexVal_bound: "list_all isHex s \<Longrightarrow> hexVal s < 16 ^ length s"
proof (induction s rule: rev_induct)
  case Nil
  then show ?case by (simp add: hexVal_def)
next
  case (snoc c s)
  then have "hexVal s < 16 ^ length s" "hexDigitVal c < 16" by (simp_all add: hexDigitVal_bound)
  then show ?case by (simp add: hexVal_snoc)
qed

lemma hexVal_group: "length h \<le> 4 \<Longrightarrow> list_all isHex h \<Longrightarrow> hexVal h div 0x100 < 0x100"
proof -
  assume h: "length h \<le> 4" "list_all isHex h"
  have "hexVal h < 16 ^ length h" using hexVal_bound [OF h(2)] .
  also have "(16::nat) ^ length h \<le> 16 ^ 4" using h(1) by (intro power_increasing) auto
  finally show ?thesis by simp
qed

lemma ipv4Fields_bytes:
  "ipv4Fields prev v n fs s = Some r \<Longrightarrow> v < 0x100 \<Longrightarrow> isBytes fs \<Longrightarrow> length fs \<le> 3 \<Longrightarrow> isBytes r \<and> length r = 4"
  by (induction prev v n fs s rule: ipv4Fields.induct) (auto simp: Let_def split: if_splits)

lemma parse6Loop_bytes:
  assumes "parse6Loop ip ell s = Some (ip', e, rest)" and "isBytes ip" and "even (length ip)" and "length ip \<le> 16"
  shows "isBytes ip' \<and> length ip' \<le> 16"
  using assms
proof (induction "16 - length ip" arbitrary: ip ell s rule: less_induct)
  case less
  let ?h = "takeWhile isHex s"
  let ?ip = "ip @ [hexVal ?h div 0x100, hexVal ?h mod 0x100]"
  show ?case
  proof (cases "16 \<le> length ip")
    case True
    with less.prems show ?thesis by (simp add: parse6Loop.simps [of ip ell s])
  next
    case False
    then have lt: "length ip < 16" by simp
    have "length ip \<noteq> 15" using less.prems(3) by auto
    with lt less.prems(3) have len: "length ?ip \<le> 16" "even (length ?ip)" by simp_all
    have dec: "16 - length ?ip < 16 - length ip" using lt by simp
    have hex: "list_all isHex ?h" by (auto simp: list_all_iff dest: set_takeWhileD)
    have bytes: "isBytes ?ip" if "length ?h \<le> 4"
      using less.prems(2) hexVal_group [OF that hex] by simp
    from less.prems(1) lt show ?thesis
    proof (cases rule: parse6Loop_elim)
      case (v4 fs)
      with less.prems(2) ipv4Fields_bytes [OF v4(1)] show ?thesis by simp
    next
      case last
      with bytes len show ?thesis by simp
    next
      case lastEll
      with bytes len show ?thesis by simp
    next
      case (ell r)
      from less.hyps [OF dec ell(2) bytes [OF ell(3)] len(2,1)] show ?thesis .
    next
      case (more r)
      from less.hyps [OF dec more(2) bytes [OF more(3)] len(2,1)] show ?thesis .
    qed
  qed
qed

lemma parseIPv6_addr: "parseIPv6 s = Some ip \<Longrightarrow> isAddr ip"
proof -
  assume a: "parseIPv6 s = Some ip"
  define s' where "s' = (if prefix ''::'' s then drop 2 s else s)"
  show ?thesis
  proof (cases "parse6Loop [] (if prefix ''::'' s then Some 0 else None) s'")
    case None
    with a show ?thesis by (auto simp: parseIPv6_def Let_def s'_def isAddr_def split: if_splits)
  next
    case (Some t)
    obtain i e r where t: "t = (i, e, r)" by (cases t)
    have b: "isBytes i" "length i \<le> 16" using parse6Loop_bytes [OF Some [unfolded t]] by simp_all
    from a Some t b isBytes_take_drop [OF b(1)] show ?thesis
      by (auto simp: parseIPv6_def Let_def s'_def [symmetric] isAddr_def split: if_splits option.splits)
  qed
qed

lemma parseIP_addr: "parseIP s = Some ip \<Longrightarrow> isAddr ip"
  by (auto simp: parseIP_def parseIPv4_def v4Prefix_def isAddr_def split: list.splits if_splits
        dest!: ipv4Fields_bytes dest: parseIPv6_addr [unfolded isAddr_def])

section \<open>Reading back a number\<close>

lemma hexChar_facts:
  assumes "d < 16"
  shows "isHex (hexChar d)" "hexDigitVal (hexChar d) = d"
proof -
  have "byteOf (hexChar d) = (if d < 10 then 48 + d else 87 + d)" using assms by (simp add: hexChar_def)
  with assms show "isHex (hexChar d)" "hexDigitVal (hexChar d) = d"
    by (auto simp: isHex_def hexDigitVal_def Let_def)
qed

lemma natHex_facts:
  "list_all isHex (natHex n)" "hexVal (natHex n) = n" "natHex n \<noteq> []"
proof (induction n rule: natHex.induct)
  case (1 n)
  {
    case 1
    with "1.IH"(1) show ?case by (simp add: natHex.simps [of n] hexChar_facts)
  next
    case 2
    with "1.IH"(2) show ?case
      by (cases "n < 16") (simp_all add: natHex.simps [of n] hexVal_snoc hexChar_facts, simp add: hexVal_def hexChar_facts)
  next
    case 3
    show ?case by (simp add: natHex.simps [of n])
  }
qed

lemma natHex_length: "n < 16 ^ Suc k \<Longrightarrow> length (natHex n) \<le> Suc k"
proof (induction k arbitrary: n)
  case 0
  then show ?case by (simp add: natHex.simps [of n])
next
  case (Suc k)
  then have "n div 16 < 16 ^ Suc k" by (simp add: less_mult_imp_div_less)
  with Suc.IH [of "n div 16"] show ?case by (simp add: natHex.simps [of n])
qed

text \<open>The two bytes of a group, and the bytes of a list of groups.\<close>

definition bytesOf :: "nat list \<Rightarrow> nat list" where
  "bytesOf gs = concat (map (\<lambda>x. [x div 0x100, x mod 0x100]) gs)"

definition isGroups :: "nat list \<Rightarrow> bool" where
  "isGroups gs \<longleftrightarrow> (\<forall>g \<in> set gs. g < 0x10000)"

lemma bytesOf_simps [simp]:
  "bytesOf [] = []" "bytesOf (g # gs) = [g div 0x100, g mod 0x100] @ bytesOf gs"
  "bytesOf (xs @ ys) = bytesOf xs @ bytesOf ys" "length (bytesOf gs) = 2 * length gs"
  by (simp_all add: bytesOf_def) (induction gs, simp_all)

lemma bytesOf_zeros: "bytesOf (replicate n 0) = replicate (2 * n) 0"
  by (induction n) (simp_all add: bytesOf_def)

lemma groupsOf_facts:
  "isBytes ip \<Longrightarrow> even (length ip) \<Longrightarrow> bytesOf (groupsOf ip) = ip \<and> isGroups (groupsOf ip) \<and> 2 * length (groupsOf ip) = length ip"
  by (induction ip rule: groupsOf.induct) (auto simp: isGroups_def)

text \<open>One group of the text, followed by a separator or by the end.\<close>

lemma natHex_split:
  assumes "r = [] \<or> \<not> isHex (hd r)"
  shows "takeWhile isHex (natHex g @ r) = natHex g" "dropWhile isHex (natHex g @ r) = r"
proof -
  have h: "\<forall>c \<in> set (natHex g). isHex c" using natHex_facts(1) by (simp add: list_all_iff)
  from assms have r: "takeWhile isHex r = []" "dropWhile isHex r = r" by (cases r; auto)+
  show "takeWhile isHex (natHex g @ r) = natHex g" using h r(1) by (simp add: takeWhile_append2)
  show "dropWhile isHex (natHex g @ r) = r" using h r(2) by (simp add: dropWhile_append2)
qed

lemma notHex_sep [simp]: "\<not> isHex (CHR '':'')" "\<not> isHex (CHR ''.'')" "\<not> isHex (CHR 0x25)"
  by (simp_all add: isHex_def Let_def)

lemma natHex_group_length: "g < 0x10000 \<Longrightarrow> length (natHex g) \<le> 4"
  using natHex_length [of g 3] by simp

lemma parse6Loop_round:
  assumes "g < 0x10000" and "length ip < 16" and "r = [] \<or> hd r = CHR '':''"
  shows "parse6Loop ip ell (natHex g @ r) =
    (case r of
       [] \<Rightarrow> Some (ip @ bytesOf [g], ell, [])
     | c # r1 \<Rightarrow>
         if r1 = [] then None
         else if hd r1 = CHR '':'' then
           (if ell \<noteq> None then None
            else if tl r1 = [] then Some (ip @ bytesOf [g], Some (length ip + 2), [])
            else parse6Loop (ip @ bytesOf [g]) (Some (length ip + 2)) (tl r1))
         else parse6Loop (ip @ bytesOf [g]) ell r1)"
proof -
  have r: "r = [] \<or> \<not> isHex (hd r)" using assms(3) by auto
  have "\<not> (4 < length (natHex g) \<or> natHex g = [])" "\<not> (r \<noteq> [] \<and> hd r = CHR ''.'')" "\<not> 16 \<le> length ip"
    using natHex_group_length [OF assms(1)] natHex_facts(3) [of g] assms(2,3) by auto
  with assms(3) show ?thesis
    unfolding parse6Loop.simps [of ip ell "natHex g @ r"] Let_def natHex_split [OF r] natHex_facts(2)
    by (cases r) simp_all
qed

lemma parse6Loop_groups:
  "gs \<noteq> [] \<Longrightarrow> isGroups gs \<Longrightarrow> length ip + 2 * length gs \<le> 16 \<Longrightarrow>
   parse6Loop ip ell (joinWith '':'' (map natHex gs)) = Some (ip @ bytesOf gs, ell, [])"
proof (induction gs arbitrary: ip)
  case (Cons g gs)
  then have g: "g < 0x10000" "length ip < 16" by (auto simp: isGroups_def)
  show ?case
  proof (cases gs)
    case Nil
    with parse6Loop_round [OF g, of "[]"] show ?thesis by simp
  next
    case (Cons g' gs')
    let ?r = "joinWith '':'' (map natHex gs)"
    have hd: "?r \<noteq> []" "hd ?r \<noteq> CHR '':''"
      using natHex_facts(1,3) [of g'] by (cases gs'; cases "natHex g'"; auto simp: Cons)+
    with parse6Loop_round [OF g, of "CHR '':'' # ?r" ell] Cons
    have "parse6Loop ip ell (joinWith '':'' (map natHex (g # gs))) = parse6Loop (ip @ bytesOf [g]) ell ?r"
      by simp
    with Cons.IH [of "ip @ bytesOf [g]"] Cons.prems Cons show ?thesis by (simp add: isGroups_def)
  qed
qed simp

lemma parse6Loop_ellipsis:
  "gs \<noteq> [] \<Longrightarrow> isGroups gs \<Longrightarrow> length ip + 2 * length gs \<le> 16 \<Longrightarrow>
   parse6Loop ip None (joinWith '':'' (map natHex gs) @ ''::'' @ t) =
     (if t = [] then Some (ip @ bytesOf gs, Some (length (ip @ bytesOf gs)), [])
      else parse6Loop (ip @ bytesOf gs) (Some (length (ip @ bytesOf gs))) t)"
proof (induction gs arbitrary: ip)
  case (Cons g gs)
  then have g: "g < 0x10000" "length ip < 16" by (auto simp: isGroups_def)
  show ?case
  proof (cases gs)
    case Nil
    with parse6Loop_round [OF g, of "''::'' @ t"] show ?thesis by simp
  next
    case (Cons g' gs')
    let ?r = "joinWith '':'' (map natHex gs) @ ''::'' @ t"
    have hd: "?r \<noteq> []" "hd ?r \<noteq> CHR '':''"
      using natHex_facts(1,3) [of g'] by (cases gs'; cases "natHex g'"; auto simp: Cons)+
    with parse6Loop_round [OF g, of "CHR '':'' # ?r" None] Cons
    have "parse6Loop ip None (joinWith '':'' (map natHex (g # gs)) @ ''::'' @ t) = parse6Loop (ip @ bytesOf [g]) None ?r"
      by simp
    with Cons.IH [of "ip @ bytesOf [g]"] Cons.prems Cons show ?thesis by (simp add: isGroups_def)
  qed
qed simp

section \<open>The printed text\<close>

text \<open>The compressed run is none, or at least two groups that are zero.\<close>

definition isRun :: "nat list \<Rightarrow> nat \<times> nat \<Rightarrow> bool" where
  "isRun g z \<longleftrightarrow>
     z = (255, 255)
     \<or> fst z + 2 \<le> snd z \<and> snd z \<le> length g
       \<and> g = take (fst z) g @ replicate (snd z - fst z) 0 @ drop (snd z) g"

lemma zeros_at:
  assumes "l = length (takeWhile (\<lambda>x. x = 0) (drop i g))" and "i \<le> length g"
  shows "i + l \<le> length g" and "g = take i g @ replicate l (0::nat) @ drop (i + l) g"
proof -
  have le: "l \<le> length (drop i g)" unfolding assms(1) by (rule length_takeWhile_le)
  then show "i + l \<le> length g" using assms(2) by simp
  have "takeWhile (\<lambda>x. x = 0) (drop i g) = replicate l 0"
    by (intro replicate_eqI) (auto simp: assms(1) dest: set_takeWhileD)
  moreover have "dropWhile (\<lambda>x. x = 0) (drop i g) = drop (i + l) g"
    by (simp add: assms(1) dropWhile_eq_drop add.commute)
  ultimately have "drop i g = replicate l 0 @ drop (i + l) g" by (metis takeWhile_dropWhile_id)
  then show "g = take i g @ replicate l 0 @ drop (i + l) g" by (metis append_take_drop_id)
qed

lemma zeroRun_isRun:
  assumes "length g = 8"
  shows "isRun g (zeroRun g)"
proof -
  have step: "isRun g (zeroRunStep g z i)" if "isRun g z" "i < 8" for z i
    using that zeros_at [of _ i g] assms by (auto simp: zeroRunStep_def Let_def isRun_def)
  have "isRun g (foldl (zeroRunStep g) z is)" if "isRun g z" "\<forall>i \<in> set is. i < 8" for z "is"
    using that by (induction "is" arbitrary: z) (simp_all add: step)
  then show ?thesis unfolding zeroRun_def by (simp add: isRun_def)
qed

text \<open>From an index on, with no run left.\<close>

lemma print6Loop_rest:
  assumes "length g = 8" and "i \<le> 8" and "\<forall>k. i \<le> k \<and> k < 8 \<longrightarrow> k \<noteq> fst z" and "0 < i"
  shows "print6Loop g z i = concat (map (\<lambda>x. '':'' @ natHex x) (drop i g))"
  using assms(2-4)
proof (induction "8 - i" arbitrary: i)
  case 0
  then have "i = 8" by simp
  then show ?case using assms(1) by (simp add: print6Loop.simps [of g z 8])
next
  case (Suc n)
  then have i: "i < 8" "i \<noteq> fst z" by auto
  with Suc assms(1) have "drop i g = g ! i # drop (Suc i) g" by (simp add: Cons_nth_drop_Suc)
  with Suc i show ?case by (simp add: print6Loop.simps [of g z i])
qed

lemma joinWith_Cons: "joinWith sep (x # xs) = x @ concat (map (\<lambda>y. sep @ y) xs)"
  by (induction xs arbitrary: x) simp_all

lemma joinWith_hexes: "joinWith '':'' (map natHex (x # xs)) = natHex x @ concat (map (\<lambda>y. '':'' @ natHex y) xs)"
  by (simp only: list.map joinWith_Cons map_map comp_def)

lemma print6Loop_plain:
  assumes "length g = 8"
  shows "print6Loop g (255, 255) 0 = joinWith '':'' (map natHex g)"
proof -
  obtain x xs where g: "g = x # xs" using assms by (cases g) auto
  have "print6Loop g (255, 255) 0 = natHex (g ! 0) @ print6Loop g (255, 255) 1"
    by (simp add: print6Loop.simps [of g "(255, 255)" 0])
  with print6Loop_rest [OF assms, of 1 "(255, 255)"] show ?thesis unfolding g joinWith_hexes by simp
qed

lemma print6Loop_tail:
  assumes "length g = 8" and "a < b" and "b \<le> 8"
  shows "print6Loop g (a, b) a = ''::'' @ joinWith '':'' (map natHex (drop b g))"
proof (cases "b = 8")
  case True
  with assms show ?thesis by (simp add: print6Loop.simps [of g "(a, 8)" a])
next
  case False
  with assms have b: "b < 8" "drop b g = g ! b # drop (Suc b) g" by (simp_all add: Cons_nth_drop_Suc)
  with assms have "print6Loop g (a, b) a = ''::'' @ natHex (g ! b) @ print6Loop g (a, b) (Suc b)"
    by (simp add: print6Loop.simps [of g "(a, b)" a] max_def)
  with b assms print6Loop_rest [OF assms(1), of "Suc b" "(a, b)"] show ?thesis
    unfolding b(2) joinWith_hexes by simp
qed

lemma print6Loop_head:
  assumes "length g = 8" and "i \<le> a" and "a < b" and "b \<le> 8" and "0 < i"
  shows "print6Loop g (a, b) i = concat (map (\<lambda>x. '':'' @ natHex x) (drop i (take a g))) @ print6Loop g (a, b) a"
  using assms(2,5)
proof (induction "a - i" arbitrary: i)
  case 0
  then show ?case by simp
next
  case (Suc n)
  then have i: "i < a" "i < 8" using assms by auto
  with assms(1) have "drop i (take a g) = g ! i # drop (Suc i) (take a g)"
    by (metis Cons_nth_drop_Suc length_take min_less_iff_conj nth_take)
  with Suc i show ?case by (simp add: print6Loop.simps [of g "(a, b)" i])
qed

lemma print6Loop_run:
  assumes "length g = 8" and "a < b" and "b \<le> 8"
  shows "print6Loop g (a, b) 0 = joinWith '':'' (map natHex (take a g)) @ ''::'' @ joinWith '':'' (map natHex (drop b g))"
proof (cases "a = 0")
  case True
  with print6Loop_tail [OF assms] show ?thesis by simp
next
  case False
  obtain x xs where g: "g = x # xs" using assms by (cases g) auto
  from False obtain a' where a: "a = Suc a'" by (cases a) auto
  have "print6Loop g (a, b) 0 = natHex (g ! 0) @ print6Loop g (a, b) 1"
    using False by (simp add: print6Loop.simps [of g "(a, b)" 0])
  also have "print6Loop g (a, b) 1 =
      concat (map (\<lambda>x. '':'' @ natHex x) (drop 1 (take a g))) @ ''::'' @ joinWith '':'' (map natHex (drop b g))"
    using print6Loop_head [OF assms(1) _ assms(2,3), of 1] print6Loop_tail [OF assms] False by simp
  also have "natHex (g ! 0) @ concat (map (\<lambda>x. '':'' @ natHex x) (drop 1 (take a g))) @ s
      = joinWith '':'' (map natHex (take a g)) @ s" for s
    using joinWith_hexes [of x "take a' xs"] by (simp add: g a)
  finally show ?thesis .
qed

section \<open>The round trip\<close>

lemma hex_text_hd: "gs \<noteq> [] \<Longrightarrow> \<exists>c r. joinWith '':'' (map natHex gs) = c # r \<and> isHex c"
proof -
  assume "gs \<noteq> []"
  then obtain g r where gs: "gs = g # r" by (cases gs) auto
  obtain c h where "natHex g = c # h" using natHex_facts(3) by (cases "natHex g") auto
  moreover from this natHex_facts(1) [of g] have "isHex c" by simp
  ultimately show ?thesis unfolding gs joinWith_hexes by simp
qed

lemma parseIPv6_plain:
  assumes "isGroups g" and "length g = 8"
  shows "parseIPv6 (joinWith '':'' (map natHex g)) = Some (bytesOf g)"
proof -
  have "g \<noteq> []" using assms(2) by auto
  from hex_text_hd [OF this] have "\<not> prefix ''::'' (joinWith '':'' (map natHex g))" by auto
  with parse6Loop_groups [OF \<open>g \<noteq> []\<close> assms(1), of "[]" None] assms(2) show ?thesis
    by (simp add: parseIPv6_def)
qed

lemma parseIPv6_parts:
  assumes "isGroups A" and "isGroups B" and "length A + length B < 8"
  shows "parseIPv6 (joinWith '':'' (map natHex A) @ ''::'' @ joinWith '':'' (map natHex B)) =
    Some (bytesOf A @ replicate (16 - 2 * (length A + length B)) 0 @ bytesOf B)"
proof -
  let ?a = "joinWith '':'' (map natHex A)" and ?b = "joinWith '':'' (map natHex B)"
  have b: "?b = [] \<longleftrightarrow> B = []" using hex_text_hd [of B] by (cases "B = []") auto
  have B: "parse6Loop ip e ?b = Some (ip @ bytesOf B, e, [])" if "B \<noteq> []" "length ip \<le> 2 * length A" for ip e
    by (rule parse6Loop_groups [OF that(1) assms(2)]) (use that(2) assms(3) in \<open>simp\<close>)
  show ?thesis
  proof (cases "A = []")
    case True
    with b B [of "[]" "Some 0"] assms(3) show ?thesis by (cases "B = []") (simp_all add: parseIPv6_def)
  next
    case False
    have np: "\<not> prefix ''::'' (?a @ ''::'' @ ?b)" using hex_text_hd [OF False] by auto
    have "parse6Loop [] None (?a @ ''::'' @ ?b) = Some (bytesOf A @ bytesOf B, Some (2 * length A), [])"
      using parse6Loop_ellipsis [OF False assms(1), of "[]" ?b] B [of "bytesOf A" "Some (2 * length A)"] b assms(3)
      by (cases "B = []") simp_all
    with np assms(3) show ?thesis by (simp only: parseIPv6_def) simp
  qed
qed

lemma hex_text_chars: "c \<in> set (joinWith '':'' (map natHex gs)) \<Longrightarrow> isHex c \<or> c = CHR '':''"
proof (induction gs)
  case (Cons g gs)
  then show ?case
    using natHex_facts(1) [of g] by (cases gs) (auto simp: list_all_iff)
qed simp

lemma parseIP_colon:
  assumes "\<forall>c \<in> set s. isHex c \<or> c = CHR '':''" and "CHR '':'' \<in> set s"
  shows "parseIP s = parseIPv6 s"
proof -
  define stop where "stop = (\<lambda>c. c \<notin> {CHR ''.'', CHR '':'', CHR 0x25})"
  have "\<not> stop (CHR '':'')" by (simp add: stop_def)
  with assms(2) have "dropWhile stop s \<noteq> []" by (auto simp: dropWhile_eq_Nil_conv)
  then obtain c r where d: "dropWhile stop s = c # r" by (cases "dropWhile stop s") auto
  then have "c \<in> set (dropWhile stop s)" by simp
  then have "c \<in> set s" by (rule set_dropWhileD)
  moreover have "\<not> stop c" using hd_dropWhile [of stop s] d by simp
  ultimately have "c = CHR '':''" using assms(1) notHex_sep unfolding stop_def by blast
  moreover have "CHR 0x25 \<notin> set s" using assms(1) notHex_sep by force
  ultimately show ?thesis using d unfolding stop_def by (simp add: parseIP_def)
qed

lemma parseIP_print6:
  assumes "isGroups g" and "length g = 8"
  shows "parseIP (print6Loop g (zeroRun g) 0) = Some (bytesOf g)"
proof -
  obtain a b where z: "zeroRun g = (a, b)" by fastforce
  consider (plain) "zeroRun g = (255, 255)"
    | (run) "a + 2 \<le> b" "b \<le> 8" "g = take a g @ replicate (b - a) 0 @ drop b g"
    using zeroRun_isRun [OF assms(2)] z assms(2) by (auto simp: isRun_def)
  then show ?thesis
  proof cases
    case plain
    from assms(2) obtain x y r where g: "g = x # y # r" by (cases g; cases "tl g") auto
    have "parseIP (joinWith '':'' (map natHex g)) = parseIPv6 (joinWith '':'' (map natHex g))"
      by (rule parseIP_colon) (use hex_text_chars in \<open>blast\<close>, simp add: g)
    with plain print6Loop_plain [OF assms(2)] parseIPv6_plain [OF assms] show ?thesis by simp
  next
    case run
    then have "a < b" by simp
    let ?t = "joinWith '':'' (map natHex (take a g)) @ ''::'' @ joinWith '':'' (map natHex (drop b g))"
    have "\<forall>c \<in> set ?t. isHex c \<or> c = CHR '':''"
      using hex_text_chars [of _ "take a g"] hex_text_chars [of _ "drop b g"] by auto
    then have "parseIP ?t = parseIPv6 ?t" by (rule parseIP_colon) simp
    moreover have "isGroups (take a g)" "isGroups (drop b g)"
      using assms(1) by (auto simp: isGroups_def dest: in_set_takeD in_set_dropD)
    moreover have "length (take a g) + length (drop b g) < 8" "16 - 2 * (length (take a g) + length (drop b g)) = 2 * (b - a)"
      using run(1,2) assms(2) by (simp_all add: min_def)
    moreover have "bytesOf g = bytesOf (take a g) @ replicate (2 * (b - a)) 0 @ bytesOf (drop b g)"
      by (subst run(3)) (simp add: bytesOf_zeros)
    ultimately show ?thesis
      using parseIPv6_parts [of "take a g" "drop b g"] print6Loop_run [OF assms(2) \<open>a < b\<close> run(2)] z by simp
  qed
qed

text \<open>One octet of a dotted text.\<close>

lemma ipv4Fields_digit:
  assumes "d < 10" and "\<not> (l = 1 \<and> v = 0)" and "v * 10 + d \<le> 255"
  shows "ipv4Fields prev v l fs (digitChar d # cs) = ipv4Fields (Some (digitChar d)) (v * 10 + d) (l + 1) fs cs"
  using assms by (auto simp: Let_def)

lemma digitChar_not_dot: "d < 10 \<Longrightarrow> digitChar d \<noteq> CHR ''.''"
proof
  assume "d < 10" and "digitChar d = CHR ''.''"
  with byteOf_digitChar [of d] have "48 + d = byteOf (CHR ''.'')" by simp
  then show False by simp
qed

lemma natDec_octet:
  assumes "n < 0x100"
  shows "\<exists>x y z. x < 10 \<and> y < 10 \<and> z < 10 \<and> n = (x * 10 + y) * 10 + z \<and> (x = 0 \<longrightarrow> y = 0 \<longrightarrow> natDec n = [digitChar z])
    \<and> (x = 0 \<longrightarrow> y \<noteq> 0 \<longrightarrow> natDec n = [digitChar y, digitChar z])
    \<and> (x \<noteq> 0 \<longrightarrow> natDec n = [digitChar x, digitChar y, digitChar z])"
proof -
  define m where "m = n div 10"
  define k where "k = m div 10"
  have n: "n = m * 10 + n mod 10" and m: "m = k * 10 + m mod 10" by (simp_all add: m_def k_def)
  have k: "k < 10" using assms n m by linarith
  have dn: "natDec n = (if n < 10 then [digitChar n] else natDec m @ [digitChar (n mod 10)])"
    and dm: "natDec m = (if m < 10 then [digitChar m] else natDec k @ [digitChar (m mod 10)])"
    and dk: "natDec k = [digitChar k]"
    using natDec.simps [of n] natDec.simps [of m] natDec.simps [of k] k
    unfolding m_def [symmetric] k_def [symmetric] by simp_all
  have small: "n < 10 \<longleftrightarrow> m = 0" "m < 10 \<longleftrightarrow> k = 0" by (auto simp: m_def k_def)
  have low: "n mod 10 = n" if "n < 10" using that by simp
  have lom: "m mod 10 = m" if "m < 10" using that by simp
  have "natDec n = (if k = 0 then (if m mod 10 = 0 then [] else [digitChar (m mod 10)]) else [digitChar k, digitChar (m mod 10)])
      @ [digitChar (n mod 10)]"
  proof (cases "n < 10")
    case True
    with dn small low show ?thesis by (simp add: k_def)
  next
    case False
    then have m0: "m \<noteq> 0" using small by blast
    show ?thesis
    proof (cases "k = 0")
      case True
      then have "m < 10" using small by blast
      with True m0 lom dm dn False show ?thesis by simp
    next
      case k: False
      then have "\<not> m < 10" using small by blast
      with k dn dm dk False show ?thesis by simp
    qed
  qed
  then have "(k = 0 \<longrightarrow> m mod 10 = 0 \<longrightarrow> natDec n = [digitChar (n mod 10)])
    \<and> (k = 0 \<longrightarrow> m mod 10 \<noteq> 0 \<longrightarrow> natDec n = [digitChar (m mod 10), digitChar (n mod 10)])
    \<and> (k \<noteq> 0 \<longrightarrow> natDec n = [digitChar k, digitChar (m mod 10), digitChar (n mod 10)])"
    by (cases "k = 0"; cases "m mod 10 = 0") (simp_all only: if_True if_False append.simps simp_thms)
  moreover have "n = (k * 10 + m mod 10) * 10 + n mod 10" using n m by simp
  moreover have "m mod 10 < 10" "n mod 10 < 10" by simp_all
  ultimately show ?thesis using k by (intro exI [of _ k] exI [of _ "m mod 10"] exI [of _ "n mod 10"] conjI) (elim conjE, assumption)+
qed

lemma ipv4Fields_octet:
  assumes "n < 0x100"
  shows "\<exists>c l. c \<noteq> CHR ''.'' \<and> ipv4Fields prev 0 0 fs (natDec n @ r) = ipv4Fields (Some c) n l fs r"
proof -
  obtain x y z where d: "x < 10" "y < 10" "z < 10" and n: "n = (x * 10 + y) * 10 + z"
    and t: "x = 0 \<longrightarrow> y = 0 \<longrightarrow> natDec n = [digitChar z]" "x = 0 \<longrightarrow> y \<noteq> 0 \<longrightarrow> natDec n = [digitChar y, digitChar z]"
      "x \<noteq> 0 \<longrightarrow> natDec n = [digitChar x, digitChar y, digitChar z]"
    using natDec_octet [OF assms] by blast
  have le: "(x * 10 + y) * 10 + z \<le> 255" "x * 10 + y \<le> 255" using assms n by simp_all
  have "\<exists>l. ipv4Fields prev 0 0 fs (natDec n @ r) = ipv4Fields (Some (digitChar z)) n l fs r"
  proof (cases "x = 0")
    case True
    with t d le n show ?thesis
      by (cases "y = 0") (auto simp: ipv4Fields_digit simp del: ipv4Fields.simps)
  next
    case False
    with t d le n show ?thesis by (auto simp: ipv4Fields_digit simp del: ipv4Fields.simps)
  qed
  with digitChar_not_dot [OF d(3)] show ?thesis by blast
qed

lemma ipv4Fields_dot:
  assumes "n < 0x100" and "length fs < 3" and "r \<noteq> []"
  shows "ipv4Fields prev 0 0 fs (natDec n @ CHR ''.'' # r) = ipv4Fields (Some (CHR ''.'')) 0 0 (fs @ [n]) r"
proof -
  obtain c l where c: "c \<noteq> CHR ''.''"
    "ipv4Fields prev 0 0 fs (natDec n @ CHR ''.'' # r) = ipv4Fields (Some c) n l fs (CHR ''.'' # r)"
    using ipv4Fields_octet [OF assms(1), of prev fs "CHR ''.'' # r"] by blast
  with assms(2,3) show ?thesis by (auto simp: isDigit_def)
qed

lemma parseIPv4_print:
  assumes "isBytes [a, b, c, d]"
  shows "parseIPv4 (joinWith ''.'' (map natDec [a, b, c, d])) = Some [a, b, c, d]"
proof -
  obtain x l where "ipv4Fields (Some (CHR ''.'')) 0 0 [a, b, c] (natDec d @ []) = ipv4Fields (Some x) d l [a, b, c] []"
    using ipv4Fields_octet [of d "Some (CHR ''.'')" "[a, b, c]" "[]"] assms by auto
  with assms show ?thesis
    by (simp add: parseIPv4_def ipv4Fields_dot)
qed

lemma parseIP_print4:
  assumes "isBytes [a, b, c, d]"
  shows "parseIP (joinWith ''.'' (map natDec [a, b, c, d])) = Some (v4Prefix @ [a, b, c, d])"
proof -
  let ?stop = "\<lambda>c. c \<notin> {CHR ''.'', CHR '':'', CHR 0x25}"
  have "\<forall>x \<in> set (natDec a). ?stop x"
    using natDec_digits [of a] by (auto simp: list_all_iff isDigit_def)
  then have "dropWhile ?stop (natDec a @ CHR ''.'' # r) = CHR ''.'' # r" for r by (simp add: dropWhile_append2)
  with parseIPv4_print [OF assms] show ?thesis by (simp add: parseIP_def)
qed

lemma length4: "length xs = 4 \<Longrightarrow> \<exists>a b c d. xs = [a, b, c, d]"
  by (auto simp: length_Suc_conv eval_nat_numeral)

lemma parseIP_ipString:
  assumes "isAddr ip"
  shows "parseIP (ipString ip) = Some ip"
proof (cases "take 12 ip = v4Prefix")
  case True
  have "length (drop 12 ip) = 4" using assms by (simp add: isAddr_def)
  from length4 [OF this] obtain a b c d where o4: "drop 12 ip = [a, b, c, d]" by blast
  have "isBytes [a, b, c, d]" using isBytes_take_drop [of ip 12] assms by (simp add: isAddr_def o4)
  from parseIP_print4 [OF this] True o4 show ?thesis
    by (simp add: ipString_def) (metis append_take_drop_id)
next
  case False
  have "bytesOf (groupsOf ip) = ip" "isGroups (groupsOf ip)" "length (groupsOf ip) = 8"
    using groupsOf_facts [of ip] assms by (auto simp: isAddr_def)
  with parseIP_print6 [of "groupsOf ip"] False show ?thesis by (simp add: ipString_def)
qed

lemma ipString_inj: "isAddr a \<Longrightarrow> isAddr b \<Longrightarrow> ipString a = ipString b \<longleftrightarrow> a = b"
  using parseIP_ipString by (metis option.inject)

end
