(* ===== verification/Destinations.thy ===== *)
theory Destinations
  imports Overlap IPText
begin

text \<open>
  What the two normal forms of \<open>warnSharedDestinations\<close> (config.go) mean: the group key of
  an address identifies the address and not its spelling, and the cleaned remote path
  identifies the list of path elements that the path denotes, so that the advisory can be
  stated on addresses and element lists. The growing loop of \<open>overlapComponents\<close> is
  compared with the loop as written, pass by pass.
\<close>

section \<open>The growing loop, pass by pass\<close>

text \<open>The loop \<open>for grew := true; grew;\<close> with a bound on its passes; \<open>None\<close> is a loop that
  has not ended by then.\<close>

fun growFuel ::
  "nat \<Rightarrow> containsFn \<Rightarrow> destJob list \<Rightarrow> destJob list \<Rightarrow> bool list \<Rightarrow> (destJob list \<times> bool list) option" where
  "growFuel 0 contains grp component taken = None"
| "growFuel (Suc n) contains grp component taken =
     (case growPass contains grp [0..<length grp] component taken False of
        (component', taken', grew) \<Rightarrow>
          if grew then growFuel n contains grp component' taken' else Some (component', taken'))"

lemma growPass_length:
  assumes "growPass contains grp ks component taken grew = (c', t', g')"
  shows "length t' = length taken"
  using assms
  by (induction contains grp ks component taken grew rule: growPass.induct) (auto split: if_splits)

lemma growFuel_enough:
  "length taken = length grp \<Longrightarrow> freeCount taken < n \<Longrightarrow>
   growFuel n contains grp component taken = Some (growLoop contains grp component taken)"
proof (induction n arbitrary: component taken)
  case (Suc n)
  obtain c' t' g' where pass: "growPass contains grp [0..<length grp] component taken False = (c', t', g')"
    by (metis prod_cases3)
  note loop = growLoop.simps [of contains grp component taken]
  show ?case
  proof (cases g')
    case True
    then have "freeCount t' < freeCount taken" using growPass_decreases [of contains grp component taken c' t'] pass Suc.prems(1) by simp
    with Suc.IH [of t' c'] Suc.prems growPass_length [OF pass] pass True loop show ?thesis by simp
  next
    case False
    with pass loop Suc.prems(1) show ?thesis by simp
  qed
qed simp

lemma freeCount_marked:
  assumes "i < length taken"
  shows "freeCount (taken[i := True]) < length taken"
proof -
  have "taken[i := True] = take i taken @ True # drop (Suc i) taken"
    using assms by (rule upd_conv_take_nth_drop)
  moreover have "freeCount t \<le> length t" for t by (simp add: freeCount_def)
  note this [of "take i taken"] this [of "drop (Suc i) taken"]
  ultimately show ?thesis using assms by (simp add: freeCount_append)
qed

section \<open>Containment on element lists\<close>

text \<open>The documented meaning of \<open>pathinside.Root(r).Contains(p)\<close> on cleaned absolute paths:
  the elements of the root are the first elements of the path.\<close>

definition containsByElements :: "containsFn \<Rightarrow> bool" where
  "containsByElements contains \<longleftrightarrow>
     (\<forall>es fs. (\<forall>e \<in> set es \<union> set fs. isProper e) \<longrightarrow>
        contains (slash # joinSlash es) (slash # joinSlash fs) = prefix es fs)"

lemma contains_cleaned:
  assumes "containsByElements contains" and "isAbs p" and "isAbs q"
  shows "contains (goClean p) (goClean q) \<longleftrightarrow> prefix (cleanElems p) (cleanElems q)"
  using assms(1) cleanElems_abs [OF assms(2)] cleanElems_abs [OF assms(3)]
  by (auto simp: containsByElements_def goClean_abs [OF assms(2)] goClean_abs [OF assms(3)])

text \<open>Equal or nested, on element lists.\<close>

definition nestedElements :: "string \<Rightarrow> string \<Rightarrow> bool" where
  "nestedElements p q \<longleftrightarrow> prefix (cleanElems p) (cleanElems q) \<or> prefix (cleanElems q) (cleanElems p)"

lemma treeOverlap_elements:
  "containsByElements contains \<Longrightarrow> isAbs p \<Longrightarrow> isAbs q \<Longrightarrow>
   treeOverlap contains (goClean p) (goClean q) \<longleftrightarrow> nestedElements p q"
  by (simp add: treeOverlap_def nestedElements_def contains_cleaned)

text \<open>A containment test with that meaning.\<close>

definition elemContains :: containsFn where
  "elemContains p q = prefix (cleanElems p) (cleanElems q)"

lemma cleanElems_joined:
  assumes "\<forall>e \<in> set es. isProper e"
  shows "cleanElems (slash # joinSlash es) = es"
proof -
  have "''..'' \<notin> set es" using assms by (auto simp: isProper_def)
  moreover have "elems (slash # joinSlash es) = es"
    using elems_joinSlash [of es] assms by (simp add: isProper_def)
  ultimately show ?thesis unfolding cleanElems_def by (simp add: foldl_cleanStep_names)
qed

lemma elemContains_laws: "containsRefl elemContains" "containsByElements elemContains"
  by (simp_all add: containsRefl_def containsByElements_def elemContains_def cleanElems_joined)

section \<open>Properties\<close>

text \<open>C14 (roundtrip): the group key of an address. It is a spelling of that address, and two
  spellings of addresses have the same key exactly when they are the same address, so
  neither a zero run nor the case of a hexadecimal digit separates two jobs of one host.\<close>

theorem groupKey_addresses:
  assumes "parseIP h = Some a" and "parseIP h' = Some b"
  shows "parseIP (groupKey tbl h) = Some a
    \<and> (groupKey tbl h = groupKey tbl h' \<longleftrightarrow> a = b)"
  using assms parseIP_ipString [OF parseIP_addr [OF assms(1)]]
    ipString_inj [OF parseIP_addr [OF assms(1)] parseIP_addr [OF assms(2)]]
  by (auto simp: groupKey_def)

theorem groupKey_addresses_witness:
  "groupKey id ''::A'' = groupKey id ''0:0::a''"
proof -
  have "parseIP ''::A'' = Some (replicate 15 0 @ [10])" by code_simp
  moreover have "parseIP ''0:0::a'' = Some (replicate 15 0 @ [10])" by code_simp
  ultimately show ?thesis by (simp only: groupKey_addresses)
qed

text \<open>C13 (termination): the loop that grows an overlap component ends. From a component of one
  job it needs at most as many passes as the group has jobs, and what it then holds is the
  component that the partition uses.\<close>

theorem growFuel_passes:
  assumes "length taken = length grp" and "i < length grp"
  shows "growFuel (length grp) contains grp [grp ! i] (taken[i := True]) =
    Some (growLoop contains grp [grp ! i] (taken[i := True]))"
  using growFuel_enough [of "taken[i := True]" grp "length grp"] freeCount_marked [of i taken] assms by simp

theorem growFuel_passes_witness:
  "growFuel 2 sampleContains sampleGroup [sampleGroup ! 0] [True, False] =
     Some (growLoop sampleContains sampleGroup [sampleGroup ! 0] [True, False])"
proof -
  have "length sampleGroup = 2" by (simp add: sampleGroup_def)
  with growFuel_passes [of "[False, False]" sampleGroup 0 sampleContains] show ?thesis by simp
qed

text \<open>C12 (safety): the shared-destination advisory on what the job file means. For jobs with
  absolute remote paths, as validation requires, and a containment test that compares path
  elements, the advisory warns exactly when two different jobs of one host, one of them
  deleting, have remote paths whose element lists are equal or one a prefix of the other,
  however the paths are spelled.\<close>

theorem warnSharedDestinations_elements:
  assumes "containsRefl contains" and "containsByElements contains" and "sortPermutes sortFn"
    and "\<forall>j \<in> set js. job_validate fs j = None"
  shows "\<exists>l. warnSharedDestinations contains sortFn tbl js = Some l
    \<and> (l \<noteq> [] \<longleftrightarrow>
        (\<exists>i k. i < length js \<and> k < length js \<and> i \<noteq> k \<and> Delete (js ! i)
           \<and> jobKey tbl (js ! i) = jobKey tbl (js ! k)
           \<and> nestedElements (RemotePath (js ! i)) (RemotePath (js ! k))))"
proof -
  have "isAbs (RemotePath j)" if "j \<in> set js" for j
    using assms(4) that by (auto simp: job_validate_iff validJob_def)
  then have ov: "treeOverlap contains (goClean (RemotePath (js ! i))) (goClean (RemotePath (js ! k)))
      \<longleftrightarrow> nestedElements (RemotePath (js ! i)) (RemotePath (js ! k))"
    if "i < length js" "k < length js" for i k
    using that treeOverlap_elements [OF assms(2)] by simp
  have "pairAt (deletesInto contains tbl) js \<longleftrightarrow>
      (\<exists>i k. i < length js \<and> k < length js \<and> i \<noteq> k \<and> Delete (js ! i) \<and> jobKey tbl (js ! i) = jobKey tbl (js ! k)
         \<and> nestedElements (RemotePath (js ! i)) (RemotePath (js ! k)))"
    unfolding pairAt_def deletesInto_def using ov by meson
  with warnSharedDestinations_total [OF assms(1,3), of tbl js] show ?thesis by simp
qed

definition nestedJobs :: "job list" where
  "nestedJobs = [sampleJob, sampleJob\<lparr>Name := ''raw'', RemotePath := ''/srv//photos/./old/../raw'', Delete := False\<rparr>]"

lemma nestedJobs_valid: "\<forall>j \<in> set nestedJobs. job_validate sampleFs j = None"
  unfolding job_validate_iff
  using sampleJob_valid
  by (simp add: nestedJobs_def validJob_def)
     (simp add: sampleJob_def isAbs_Cons plainRemotePath_def printable_def isControlByte_def shellMetaChars_def)

theorem warnSharedDestinations_elements_witness:
  "\<exists>l. warnSharedDestinations elemContains sampleSort id nestedJobs = Some l \<and> l \<noteq> []"
proof -
  have "nestedElements ''/srv/photos'' ''/srv//photos/./old/../raw''" by code_simp
  then have "0 < length nestedJobs \<and> 1 < length nestedJobs \<and> (0::nat) \<noteq> 1 \<and> Delete (nestedJobs ! 0)
      \<and> jobKey id (nestedJobs ! 0) = jobKey id (nestedJobs ! 1)
      \<and> nestedElements (RemotePath (nestedJobs ! 0)) (RemotePath (nestedJobs ! 1))"
    by (simp add: nestedJobs_def jobKey_def sampleJob_def)
  with warnSharedDestinations_elements [OF elemContains_laws sampleLaws(2) nestedJobs_valid, of id] show ?thesis by blast
qed

end
