(* ===== verification/Spec2Isabelle.thy ===== *)
theory Spec2Isabelle
  imports Client Service Destinations
begin

text \<open>
  A verification library for docker-rsync-scheduler: a container that mirrors local
  directories to remote hosts with rsync over ssh, on a schedule or on demand. The Go
  program has six implementation files; each theory below names the functions it models.

  \<^bold>\<open>The program.\<close> \<open>main.go\<close> dispatches on a subcommand. \<open>daemon\<close> (\<open>daemon.go\<close>) loads the
  job file, decides the ssh host-key posture, binds a socket and serves one request at a
  time: a tick of its own scheduler or a trigger from the \<open>sync\<close> subcommand
  (\<open>client.go\<close>). A request reloads the job file (\<open>config.go\<close>), runs one rsync per job
  (\<open>sync.go\<close>), and publishes the verdict of the pass to a health marker (\<open>health.go\<close>)
  and to a last-run record that survives a restart.

  \<^bold>\<open>Theories, from the bottom.\<close>

  \<^item> \<open>Prelude\<close>: Go errors (\<open>errIs\<close> is \<open>errors.Is\<close>), early returns, the interfaces
    \<open>byte_sink\<close> (a writer fed in chunks) and \<open>validator\<close> (a check and its contract), and
    shared list lemmas.
  \<^item> \<open>GoText\<close>, \<open>GoRegexp\<close>, \<open>NetIP\<close>, \<open>GoPath\<close>, \<open>Sha256\<close>: what the source uses of the
    standard library: UTF-8 decoding (\<open>range\<close> over a string), \<open>strings\<close>, \<open>strconv\<close>, the
    fragment of \<open>regexp\<close> it compiles, \<open>net.ParseIP\<close> and \<open>IP.String\<close>, \<open>filepath.Clean\<close>,
    \<open>sha256.Sum256\<close>. \<open>GoText\<close> also holds \<open>hasControl\<close> and \<open>hasShellMeta\<close>. \<open>GoPath\<close> proves
    the byte loop of \<open>Clean\<close> equal to its meaning on path elements (\<open>cleanSpec\<close>), and
    \<open>IPText\<close> that the text of every parsed address parses to that address.
  \<^item> \<open>Files\<close>: \<open>openRegular\<close>, \<open>checkReadable\<close>, \<open>readCappedConfig\<close>, \<open>sourceIsEmpty\<close>,
    \<open>classifyKnownHosts\<close>. The operating system is an argument (\<open>opener\<close>, \<open>dirOpener\<close>).
  \<^item> \<open>Config\<close>: the records \<open>job\<close> and \<open>config\<close> and every validator, with one error
    constructor per message; \<open>validJob\<close> and \<open>validConfig\<close> are the contracts they decide.
  \<^item> \<open>RsyncArgs\<close>: \<open>transport\<close>, \<open>sshCommand\<close>, \<open>buildRsyncArgs\<close>.
  \<^item> \<open>Streams\<close>: \<open>cappedBuffer\<close>, \<open>delLimitCapture\<close> and \<open>tail\<close> (here \<open>tailOf\<close>).
  \<^item> \<open>Stats\<close>: \<open>parseStats\<close> and \<open>parseNum\<close>.
  \<^item> \<open>Logs\<close>: log records; every definition that logs returns its records in order.
  \<^item> \<open>JobRun\<close>: \<open>runJob\<close>, \<open>interruptedByShutdown\<close>. \<open>judgeRun\<close> is the part after
    \<open>cmd.Run\<close>.
  \<^item> \<open>Pass\<close>: \<open>runPass\<close>, \<open>reportPass\<close>, \<open>healthy\<close>, \<open>vouchable\<close>.
  \<^item> \<open>Settings\<close>, \<open>Load\<close>: the environment settings and \<open>loadConfig\<close>.
  \<^item> \<open>Advise\<close>, \<open>Overlap\<close>, \<open>Destinations\<close>: the advisories on a job file, the proof that
    \<open>overlapComponents\<close> computes connected components, and what the group key of a host and
    the cleaned path of a destination identify.
  \<^item> \<open>Health\<close>: \<open>applyPassHealth\<close>, \<open>probeOptions\<close>.
  \<^item> \<open>Daemon\<close>: \<open>daemon_run\<close> (the method \<open>run\<close>), \<open>recordScheduled\<close>, \<open>newRequest\<close>,
    \<open>tick\<close>, \<open>startTicker\<close> with the ticks of its goroutine (\<open>tickerRun\<close>),
    \<open>openRecordForWrite\<close>, \<open>runDaemon_boot\<close> and \<open>runDaemon\<close>, and the transition system
    \<open>daemon_step\<close> of requests and the shutdown.
  \<^item> \<open>Service\<close>: the abstract service a daemon gives (\<open>service_step\<close>: marker, drain, record)
    and the simulation by it of \<open>logged_step\<close>, which is \<open>daemon_step\<close> with the records
    each request writes.
  \<^item> \<open>Client\<close>: \<open>runClient\<close>, \<open>finishResult\<close>, \<open>dispatch\<close>, \<open>main\<close>.

  \<^bold>\<open>Representation.\<close> A Go \<open>string\<close> or \<open>[]byte\<close> is a list of bytes (\<open>string\<close>). A \<open>uint32\<close>
  is a \<open>32 word\<close>; \<open>int\<close>, \<open>int64\<close> and durations (in nanoseconds) are \<open>int\<close>, and
  \<open>ParseInt\<close>'s range check is written out. An error return is an option or a sum; a panic
  is \<open>None\<close>, and the theorems that matter show it does not happen: an index outside the
  watcher's pattern (\<open>delScan\<close>) is a panic of the job (\<open>runJobPanics\<close>), of the request
  (\<open>daemon_run\<close>) and of the process (\<open>runDaemon\<close>). Loops are structural or
  have a termination proof. The one bounded loop, \<open>growFuel\<close>, stands beside its total
  version \<open>growLoop\<close> to count passes: as many as the group has jobs are enough.

  \<^bold>\<open>Parameters.\<close> Packages outside the repository are arguments: \<open>envx\<close> and
  \<open>scheduler.ParseInterval\<close> (\<open>envLib\<close>), the YAML packages (\<open>yamlLib\<close>),
  \<open>pathinside.Root.Contains\<close> (\<open>containsFn\<close>), the health latch and marker (\<open>latchLib\<close>),
  \<open>Lease.Duration\<close> and \<open>RunProbe\<close> (\<open>probeLib\<close>), the last-run record (\<open>re_record\<close>,
  \<open>be_remaining\<close>) and \<open>trigger.Submit\<close> (\<open>submission\<close>). So are the subprocess, the clock, the file system, the
  Unicode lower-case table above ASCII and the order \<open>slices.SortFunc\<close> gives equal
  elements. Their documented laws are the predicates \<open>latchLaws\<close>, \<open>recordLaws\<close>,
  \<open>containsRefl\<close>, \<open>containsByElements\<close> and \<open>sortPermutes\<close>; a theorem that needs one names it, and its witness
  shows an instance (\<open>pairLatch\<close>, \<open>sampleContains\<close>, \<open>elemContains\<close>, \<open>sampleSort\<close>, \<open>sampleRunEnv\<close>).

  \<^bold>\<open>What is shown.\<close>

  \<^item> Validation decides its contract, job by job and for the file, and blames the first job
    at fault (\<open>Config\<close>); a config is loaded exactly when the whole file is read, parses and
    is valid (\<open>Load\<close>, \<open>Files\<close>).
  \<^item> The rsync command line: no option injection, no control characters, deletion and its
    cap exactly on request, the destination reads back (\<open>RsyncArgs\<close>, \<open>Config\<close>, and
    \<open>served_arguments_safe\<close> here for every state of a running daemon).
  \<^item> Output capture: the capped buffer holds the last bytes, the deletion-cap watcher finds
    the warning exactly at a line start whatever the chunks, the logged tail is valid UTF-8
    (\<open>Streams\<close>); the counters read back (\<open>Stats\<close>).
  \<^item> Verdicts: when a job is a success, an interruption or a failure (\<open>JobRun\<close>), exact
    counters and records of a pass (\<open>Pass\<close>), what a request publishes to the marker and
    the record, and that a shutdown keeps the marker down (\<open>Daemon\<close>).
  \<^item> The life of a daemon: it refines the abstract service, its fields stay well formed, its
    ticker submits a startup request exactly when one is due, and a failed scheduled pass
    makes the next boot start unhealthy with a startup pass, unless the log warned that the
    record is stale (\<open>Service\<close>).
  \<^item> Advisories: connected components (\<open>Overlap\<close>), found in a bounded number of passes, and a
    warning exactly when a deleting job's path elements are equal to or nested with another's
    on the same host, where an address counts as one host in every spelling (\<open>Destinations\<close>).
  \<^item> Exit codes of the client and the process (\<open>Client\<close>), and end to end from the pass to
    the caller's exit code and the heartbeat record (this theory).

  \<^bold>\<open>Not modelled.\<close> The queue, the socket server and the timing of the ticker loop, which
  belong to the packages trigger and scheduler: a run of the daemon is the sequence of
  requests its single executor runs (\<open>serveAll\<close>), with the shutdown at any point of it. In
  \<open>runDaemon\<close> one request may be in flight at the shutdown and resolve after it; the requests
  still queued are not run, and what the queue delivers to them (\<open>lib_cancelled\<close>) is an
  input, as is its answer to each tick. \<open>daemon_step\<close> allows more than that, any requests
  after the shutdown, and so do the safety properties stated on it. One request is atomic with respect to the marker,
  which it writes once. The acceptance record of the socket server is left out, because its
  place among the records of the executor is not determined. \<open>defaultCommandRunner\<close> is a
  value of the package scheduler; the subprocess it starts is an input of \<open>runJob\<close>. Closing
  a file that was only read changes nothing the program sees. The container build, the
  scripts and the tests hold no program logic.
\<close>

section \<open>Lemmas that span components\<close>

text \<open>Only the report of a complete pass is a heartbeat.\<close>

lemma runJob_no_heartbeat: "\<not> list_ex isHeartbeat (snd (runJob env j timeout tr))"
proof -
  have "\<not> list_ex isHeartbeat (snd (judgeRun j d cr))" for d cr
    by (cases "cr_runErr cr") (auto simp: judgeRun_def Let_def isHeartbeat_def heartbeatMsg_def)
  then show ?thesis
    by (auto simp: runJob_def Let_def isHeartbeat_def heartbeatMsg_def split: sum.split)
qed

lemma runPass_no_heartbeat: "\<not> list_ex isHeartbeat (snd (runPass env cfg timeout tr trig))"
proof -
  have "\<not> list_ex isHeartbeat (snd x)" if "x \<in> set (jobRuns env cfg timeout tr)" for x
    using that jobRuns_member runJob_no_heartbeat unfolding jobRuns_def by metis
  then show ?thesis by (auto simp: runPass_counts list_ex_iff)
qed

lemma warnConflictingTree_no_heartbeat:
  "warnConflictingTree contains sortFn ms = Some l \<Longrightarrow> \<not> list_ex isHeartbeat l"
  by (auto simp: warnConflictingTree_def Let_def isHeartbeat_def heartbeatMsg_def sharedTreeMsg_def
      split: if_splits list.splits)

lemma sequenceLogs_parts: "sequenceLogs xs = Some l \<Longrightarrow> r \<in> set l \<Longrightarrow> \<exists>k. Some k \<in> set xs \<and> r \<in> set k"
  by (induction xs arbitrary: l) (auto split: option.splits, metis+)

lemma adviseConfig_no_heartbeat:
  assumes "adviseConfig contains sortFn tbl cfg = Some l"
  shows "\<not> list_ex isHeartbeat l"
proof -
  have inert: "\<not> isHeartbeat r" if "r \<in> set (warnInertSettings j)" for r j
    using that by (auto simp: warnInertSettings_def Let_def isHeartbeat_def heartbeatMsg_def split: if_splits)
  have shared: "\<not> isHeartbeat r" if "warnSharedDestinations contains sortFn tbl (Jobs cfg) = Some k" "r \<in> set k" for k r
  proof -
    from sequenceLogs_parts [OF that(1) [unfolded warnSharedDestinations_def Let_def] that(2)]
    obtain k' ms where "warnConflictingTree contains sortFn ms = Some k'" "r \<in> set k'" by force
    then show ?thesis using warnConflictingTree_no_heartbeat by (auto simp: list_ex_iff)
  qed
  from assms show ?thesis
    using inert shared by (auto simp: adviseConfig_def list_ex_iff)
qed

lemma recordScheduled_no_heartbeat: "\<not> list_ex isHeartbeat (snd (recordScheduled env trig ok s))"
  by (auto simp: recordScheduled_def isHeartbeat_def heartbeatMsg_def split: prod.split option.split)

lemma daemon_run_logs:
  assumes "daemon_run L env d trig = Some (d', out, lg)"
    and load: "loadConfig (lib_env L) (lib_yaml L) (re_fs env) = Inr lc"
  obtains advice where
    "lg = advice @ snd (runPass (re_pass env) (lc_cfg lc) (dm_timeout d) (dm_transport d) trig)
       @ reportPass (fst (runPass (re_pass env) (lc_cfg lc) (dm_timeout d) (dm_transport d) trig))
       @ (if vouchable (fst (runPass (re_pass env) (lc_cfg lc) (dm_timeout d) (dm_transport d) trig))
          then snd (recordScheduled env trig
                 (healthy (fst (runPass (re_pass env) (lc_cfg lc) (dm_timeout d) (dm_transport d) trig))) (dm_stamp d))
          else [])"
    "advice = [] \<or> adviseConfig (lib_contains L) (lib_sort L) (env_lower (lib_env L)) (lc_cfg lc) = Some advice"
proof -
  define A where "A = (if lc_digest lc \<noteq> dm_advised d
      then adviseConfig (lib_contains L) (lib_sort L) (env_lower (lib_env L)) (lc_cfg lc) else Some [])"
  from assms obtain advice where A: "A = Some advice"
    by (cases A) (simp_all add: daemon_run_def flip: A_def)
  then have "advice = [] \<or> adviseConfig (lib_contains L) (lib_sort L) (env_lower (lib_env L)) (lc_cfg lc) = Some advice"
    by (simp add: A_def split: if_splits)
  moreover have "lg = advice @ snd (runPass (re_pass env) (lc_cfg lc) (dm_timeout d) (dm_transport d) trig)
       @ reportPass (fst (runPass (re_pass env) (lc_cfg lc) (dm_timeout d) (dm_transport d) trig))
       @ (if vouchable (fst (runPass (re_pass env) (lc_cfg lc) (dm_timeout d) (dm_transport d) trig))
          then snd (recordScheduled env trig
                 (healthy (fst (runPass (re_pass env) (lc_cfg lc) (dm_timeout d) (dm_transport d) trig))) (dm_stamp d))
          else [])"
    using assms A
    by (cases "vouchable (fst (runPass (re_pass env) (lc_cfg lc) (dm_timeout d) (dm_transport d) trig))")
       (simp_all add: daemon_run_def case_prod_beta flip: A_def)
  ultimately show ?thesis by (rule that [rotated])
qed

section \<open>Properties\<close>

text \<open>C7 (functional): the exit code a triggered sync reports to its caller. If an event that
  reaches the client as the final one carries the daemon's outcome, the \<open>sync\<close> subcommand
  exits 0 exactly when the submission ended without an error of its own (it was sent, not
  cancelled, and the final event arrived), the config loaded and no job of the pass failed;
  a client that loses the daemon or is cancelled exits 1 whatever the pass did. A pass cut
  short that the client hears of is reported with a warning.\<close>

theorem sync_exit_reports_pass:
  assumes "daemon_run L env d trig = Some (d', out, lg)"
    and "sb_err sb = None \<Longrightarrow> ev_OK (sb_final sb) = out_OK out \<and> ev_Reason (sb_final sb) = out_Reason out"
  shows "fst (runClient sb sock) =
      (if sb_err sb = None
          \<and> (\<exists>lc. loadConfig (lib_env L) (lib_yaml L) (re_fs env) = Inr lc
               \<and> (\<forall>x \<in> set (jobRuns (re_pass env) (lc_cfg lc) (dm_timeout d) (dm_transport d)). \<not> jr_failed (fst x)))
       then 0 else 1)
    \<and> (sb_err sb = None \<and> runVerdict L env d = None \<longrightarrow>
         (\<exists>r \<in> set (snd (runClient sb sock)). lr_msg r = ''triggered sync ended with a caveat''))"
proof (cases "sb_err sb = None")
  case False
  then obtain e where "sb_err sb = Some e" by blast
  then show ?thesis by (simp add: runClient_code)
next
  case True
  note pub = daemon_run_publishes(3,4) [OF assms(1)] and final = assms(2) [OF True]
  have v: "runVerdict L env d \<noteq> Some False \<longleftrightarrow>
      (\<exists>lc. loadConfig (lib_env L) (lib_yaml L) (re_fs env) = Inr lc
         \<and> countRuns jr_failed (jobRuns (re_pass env) (lc_cfg lc) (dm_timeout d) (dm_transport d)) = 0)"
    by (auto simp: verdict_defs passVerdict_def split: sum.split)
  have "runVerdict L env d = None \<longrightarrow>
      (\<exists>r \<in> set (snd (runClient sb sock)). lr_msg r = ''triggered sync ended with a caveat'')"
    using pub True final by (auto simp: runClient_def case_prod_beta finishResult_def)
  with pub v True final show ?thesis by (simp add: runClient_code countRuns_zero_iff)
qed

theorem sync_exit_reports_pass_witness:
  "\<exists>d' out lg. daemon_run sampleLibs sampleRunEnv sampleDaemon ''external'' = Some (d', out, lg)
     \<and> fst (runClient (sampleSubmission None True) socketPath) = 0
     \<and> (\<exists>lc. loadConfig sampleEnv sampleYaml sampleFs = Inr lc)"
proof -
  from sampleRun_total [of "''external''"] obtain d' out lg where
    run: "daemon_run sampleLibs sampleRunEnv sampleDaemon ''external'' = Some (d', out, lg)" by blast
  from daemon_run_publishes(3,4) [OF run] have out: "out_OK out" "out_Reason out = []"
    by (simp_all add: sampleRun_verdict)
  have code: "fst (runClient (sampleSubmission None True) socketPath) = 0"
    by (simp add: runClient_code sampleSubmission_def sampleEvent_def)
  have final: "sb_err (sampleSubmission None True) = None \<Longrightarrow>
      ev_OK (sb_final (sampleSubmission None True)) = out_OK out
      \<and> ev_Reason (sb_final (sampleSubmission None True)) = out_Reason out"
    using out by (simp add: sampleSubmission_def sampleEvent_def)
  from conjunct1 [OF sync_exit_reports_pass [OF run final], of socketPath] code
  have "\<exists>lc. loadConfig (lib_env sampleLibs) (lib_yaml sampleLibs) (re_fs sampleRunEnv) = Inr lc"
    by (metis zero_neq_one)
  then have "\<exists>lc. loadConfig sampleEnv sampleYaml sampleFs = Inr lc" by (simp add: sampleLibs_def sampleRunEnv_def)
  with run code show ?thesis by blast
qed

text \<open>C35 (functional): the heartbeat of a request. Its log holds the heartbeat record exactly
  when the config loaded and every job of it was run to a success or a failure: not after a
  failed reload, and not after a pass cut short.\<close>

theorem daemon_run_heartbeat:
  assumes "daemon_run L env d trig = Some (d', out, lg)"
  shows "list_ex isHeartbeat lg \<longleftrightarrow>
     (\<exists>lc. loadConfig (lib_env L) (lib_yaml L) (re_fs env) = Inr lc
        \<and> length (jobRuns (re_pass env) (lc_cfg lc) (dm_timeout d) (dm_transport d)) = length (Jobs (lc_cfg lc))
        \<and> (\<forall>x \<in> set (jobRuns (re_pass env) (lc_cfg lc) (dm_timeout d) (dm_transport d)). \<not> jr_interrupted (fst x)))"
proof (cases "loadConfig (lib_env L) (lib_yaml L) (re_fs env)")
  case (Inl e)
  with assms recordScheduled_no_heartbeat [of env trig False "dm_stamp d"] show ?thesis
    by (auto simp: daemon_run_def case_prod_beta isHeartbeat_def heartbeatMsg_def)
next
  case (Inr lc)
  let ?r = "fst (runPass (re_pass env) (lc_cfg lc) (dm_timeout d) (dm_transport d) trig)"
  let ?rest = "if vouchable ?r then snd (recordScheduled env trig (healthy ?r) (dm_stamp d)) else []"
  from daemon_run_logs [OF assms Inr] obtain advice where
    lg: "lg = advice @ snd (runPass (re_pass env) (lc_cfg lc) (dm_timeout d) (dm_transport d) trig) @ reportPass ?r @ ?rest"
      "advice = [] \<or> adviseConfig (lib_contains L) (lib_sort L) (env_lower (lib_env L)) (lc_cfg lc) = Some advice"
    by metis
  from lg(2) have "\<not> list_ex isHeartbeat advice" by (auto dest: adviseConfig_no_heartbeat)
  moreover have "\<not> list_ex isHeartbeat ?rest" by (simp add: recordScheduled_no_heartbeat)
  moreover have "list_ex isHeartbeat (reportPass ?r) \<longleftrightarrow> \<not> pr_interrupted ?r"
    by (simp add: reportPass_def isHeartbeat_def heartbeatMsg_def)
  ultimately have "list_ex isHeartbeat lg \<longleftrightarrow> \<not> pr_interrupted ?r"
    using runPass_no_heartbeat [of "re_pass env" "lc_cfg lc" "dm_timeout d" "dm_transport d" trig]
    by (simp add: lg(1) del: if_split)
  moreover have "length (jobRuns (re_pass env) (lc_cfg lc) (dm_timeout d) (dm_transport d)) \<le> length (Jobs (lc_cfg lc))"
    unfolding jobRuns_def by (rule jobRuns_length)
  ultimately show ?thesis using Inr by (auto simp: runPass_counts countRuns_zero_iff)
qed

theorem daemon_run_heartbeat_witness:
  "\<exists>d' out lg. daemon_run sampleLibs (sampleRunEnv\<lparr>re_fs := (\<lambda>p. Inl ErrNotExist)\<rparr>) sampleDaemon triggerInterval
       = Some (d', out, lg) \<and> \<not> list_ex isHeartbeat lg"
proof -
  let ?env = "sampleRunEnv\<lparr>re_fs := (\<lambda>p. Inl ErrNotExist)\<rparr>"
  obtain d' out lg where run: "daemon_run sampleLibs ?env sampleDaemon triggerInterval = Some (d', out, lg)"
    using daemon_run_total [OF sampleLibs_laws(2,3)] by blast
  have "\<nexists>lc. loadConfig (lib_env sampleLibs) (lib_yaml sampleLibs) (re_fs ?env) = Inr lc"
    by (simp add: loadConfig_def readCappedConfig_def openRegular_def)
  with daemon_run_heartbeat [OF run] run show ?thesis by blast
qed

text \<open>C6 (safety): what a running daemon hands to rsync. In every state reached from a
  successful boot, for every job of a config it loads, the argument vector has its operands
  after \<open>--\<close>, its destination reads back to the job's host and directory, and no argument
  holds a control character.\<close>

theorem served_arguments_safe:
  assumes "runDaemon_boot L env = (Inr b, lg)" and "daemon_trace L (bo_daemon b) evs d"
    and "loadConfig (lib_env L) (lib_yaml L) fs = Inr lc" and "j \<in> set (Jobs (lc_cfg lc))"
  shows "(\<forall>a \<in> set (buildRsyncArgs j (dm_transport d)). printable a)
    \<and> (\<exists>opts user host. buildRsyncArgs j (dm_transport d) = opts @ [''--'', Local j @ ''/'', remoteDest j]
         \<and> ''--'' \<notin> set opts \<and> splitRemoteHost (RemoteHost j) = (user, host)
         \<and> readDest (remoteDest j) = Some (user, host, RemotePath j @ ''/''))"
proof -
  have v: "validJob fs j" using loadConfig_valid [OF assms(3)] assms(4) by (simp add: validConfig_def)
  then have vh: "validRemoteHost (RemoteHost j)" by (simp add: validJob_def)
  from assms(1) have "knownCompression (compress (dm_transport (bo_daemon b)))"
    by (rule runDaemon_boot_Inr) (simp add: loadTransport_known)
  moreover have "dm_transport d = dm_transport (bo_daemon b)"
    using settings.inv_trace [OF assms(2)] by blast
  ultimately have "\<forall>a \<in> set (buildRsyncArgs j (dm_transport d)). printable a"
    using buildRsyncArgs_printable [OF v] by simp
  moreover obtain user host where sp: "splitRemoteHost (RemoteHost j) = (user, host)" by fastforce
  moreover have "buildRsyncArgs j (dm_transport d) =
      optionsOf (buildRsyncArgs j (dm_transport d)) @ [''--'', Local j @ ''/'', remoteDest j]"
    unfolding optionsOf_build by (simp add: buildRsyncArgs_shape)
  moreover have "''--'' \<notin> set (optionsOf (buildRsyncArgs j (dm_transport d)))"
    unfolding optionsOf_def by (auto dest: set_takeWhileD)
  ultimately show ?thesis using readDest_remoteDest [OF vh sp] by blast
qed

theorem served_arguments_safe_witness:
  "\<exists>b lg. runDaemon_boot sampleLibs sampleBoot = (Inr b, lg)
     \<and> (\<forall>a \<in> set (buildRsyncArgs sampleJob (dm_transport (bo_daemon b))). printable a)"
proof -
  obtain b lg where boot: "runDaemon_boot sampleLibs sampleBoot = (Inr b, lg)" using sampleBoot_ok by blast
  have "loadConfig (lib_env sampleLibs) (lib_yaml sampleLibs) sampleFs =
      Inr \<lparr>lc_cfg = \<lparr>Jobs = [sampleJob]\<rparr>, lc_digest = sum256 ''key''\<rparr>"
    using sampleLoad by (simp add: sampleLibs_def)
  from served_arguments_safe [OF boot trace_nil this, of sampleJob] boot show ?thesis by auto
qed

end
